theory Spec2Isabelle
  imports Complex_Main
begin

section \<open>JavaScript values\<close>

text \<open>
  An optional string field of a JavaScript object is a \<open>string option\<close>: \<open>None\<close> is
  \<^verbatim>\<open>undefined\<close> (the field is absent). The service tests such fields with \<^verbatim>\<open>!v\<close>, which
  holds for \<^verbatim>\<open>undefined\<close> and for the empty string.
\<close>

definition truthy :: "string option \<Rightarrow> bool" where
  "truthy v = (case v of None \<Rightarrow> False | Some s \<Rightarrow> s \<noteq> [])"

text \<open>A thrown \<^verbatim>\<open>Error(message)\<close>.\<close>

datatype error = Error string

text \<open>Decimal rendering of a non-negative integer, as a template literal renders it.\<close>

definition digit :: "nat \<Rightarrow> char" where
  "digit n = ''0123456789'' ! n"

fun show_nat :: "nat \<Rightarrow> string" where
  "show_nat n = (if n < 10 then [digit n] else show_nat (n div 10) @ [digit (n mod 10)])"

declare show_nat.simps [simp del]

section \<open>Session manager (client.js)\<close>

text \<open>
  The client object that the platform library constructs, known here by the arguments of
  its constructor. What the library keeps in it, its \<^verbatim>\<open>info\<close> property among it, is the
  library's and is a parameter wherever it is read.
\<close>

record wweb_client =
  clientId :: string
  headless :: bool

record whatsapp_client =
  sessionName :: string
  cfg_headless :: bool
  client :: "wweb_client option"
  isReady :: bool

text \<open>
  The constructor: \<^verbatim>\<open>{headless: true, sessionName: config.sessionName || "default", ...config}\<close>.
  The spread comes last, so a \<^verbatim>\<open>sessionName\<close> key of the configuration wins as it is.
\<close>

definition new_WhatsAppClient :: "string option \<Rightarrow> whatsapp_client" where
  "new_WhatsAppClient cfg_sessionName =
     \<lparr>sessionName = (case cfg_sessionName of None \<Rightarrow> ''default'' | Some s \<Rightarrow> s),
      cfg_headless = True, client = None, isReady = False\<rparr>"

text \<open>
  The synchronous part of \<^verbatim>\<open>initialize()\<close>: nothing when a client exists, otherwise
  \<^verbatim>\<open>this.client = new Client({authStrategy: new LocalAuth({clientId}), ...})\<close>. The
  constructors are the library's: \<open>thrown\<close> is what they throw for these arguments, if
  anything, and then the assignment does not happen and the call fails.
\<close>

definition initialize :: "error option \<Rightarrow> whatsapp_client \<Rightarrow> error + whatsapp_client" where
  "initialize thrown c =
     (case client c of
        Some h \<Rightarrow> Inr c
      | None \<Rightarrow>
          (case thrown of
             Some e \<Rightarrow> Inl e
           | None \<Rightarrow>
               Inr (c\<lparr>client := Some \<lparr>clientId = sessionName c, headless = cfg_headless c\<rparr>\<rparr>)))"

text \<open>
  The events a platform client emits reach the reactions that \<^verbatim>\<open>initialize()\<close> registered
  on it. The reactions do not look at \<^verbatim>\<open>this.client\<close>, and a client that \<^verbatim>\<open>logout()\<close>
  has dropped keeps them: \<^verbatim>\<open>ready\<close> sets the flag, \<^verbatim>\<open>disconnected\<close> clears it, the
  others only log or settle the promise of \<^verbatim>\<open>initialize()\<close>.
\<close>

datatype platform_event = Qr | Ready | Authenticated | Disconnected | ClientError

definition on_event :: "platform_event \<Rightarrow> whatsapp_client \<Rightarrow> whatsapp_client" where
  "on_event e c =
     (case e of
        Ready \<Rightarrow> c\<lparr>isReady := True\<rparr>
      | Disconnected \<Rightarrow> c\<lparr>isReady := False\<rparr>
      | _ \<Rightarrow> c)"

definition not_initialized :: string where
  "not_initialized =
     ''Cliente n'' @ [CHR 0xC3, CHR 0xA3] @ ''o inicializado. Chame initialize() primeiro.''"

definition getClient :: "whatsapp_client \<Rightarrow> error + wweb_client" where
  "getClient c = (case client c of None \<Rightarrow> Inl (Error not_initialized) | Some h \<Rightarrow> Inr h)"

text \<open>
  \<^verbatim>\<open>logout()\<close>: with a client, \<^verbatim>\<open>await this.client.logout()\<close>, then drop the client and
  clear the flag. The awaited call is the library's: \<open>rejected\<close> is the error it rejects
  with, if any, and then neither assignment happens.
\<close>

definition logout :: "error option \<Rightarrow> whatsapp_client \<Rightarrow> error + whatsapp_client" where
  "logout rejected c =
     (case client c of
        None \<Rightarrow> Inr c
      | Some h \<Rightarrow>
          (case rejected of
             Some e \<Rightarrow> Inl e
           | None \<Rightarrow> Inr (c\<lparr>client := None, isReady := False\<rparr>)))"

section \<open>Outbound queue (messageQueue.js)\<close>

text \<open>
  The argument of \<^verbatim>\<open>enqueue\<close>. The destination and the content are optional strings,
  the metadata an optional object. \<^verbatim>\<open>maxAttempts\<close> and the delay of the queue are
  JavaScript numbers, taken as they come: any finite number, negative and fractional ones
  too. For them \<^verbatim>\<open>v || d\<close> is \<open>d\<close> when \<open>v\<close> is \<^verbatim>\<open>undefined\<close> or \<open>0\<close>. The counter
  \<^verbatim>\<open>attempts\<close> starts at \<open>0\<close> and is only ever incremented.
\<close>

record message =
  msg_to :: "string option"
  msg_content :: "string option"
  msg_metadata :: "(string \<times> string) list option"
  msg_maxAttempts :: "real option"

record message_item =
  item_id :: string
  item_to :: string
  item_content :: string
  item_metadata :: "(string \<times> string) list"
  item_timestamp :: nat
  attempts :: nat
  maxAttempts :: real

definition or_default :: "real option \<Rightarrow> real \<Rightarrow> real" where
  "or_default v d = (case v of None \<Rightarrow> d | Some n \<Rightarrow> if n = 0 then d else n)"

text \<open>
  \<^verbatim>\<open>this.client\<close> of the queue is \<^verbatim>\<open>null\<close> or the session object that \<^verbatim>\<open>setClient\<close>
  stored; it is a reference, so the session lives in the world below and the queue keeps
  whether it was attached. The reference is only ever set, and a drain starts only when
  it is, so inside the loop \<^verbatim>\<open>this.client\<close> is the session.
\<close>

record message_queue =
  queue :: "message_item list"
  isProcessing :: bool
  rateLimitDelay :: real
  mq_client :: bool

definition new_MessageQueue :: "real option \<Rightarrow> message_queue" where
  "new_MessageQueue cfg_rateLimitDelay =
     \<lparr>queue = [], isProcessing = False,
      rateLimitDelay = or_default cfg_rateLimitDelay 8000, mq_client = False\<rparr>"

text \<open>
  What the queue does to the outside: the platform call
  \<^verbatim>\<open>sendMessage(formattedNumber, content)\<close>, the two callbacks with the item they
  receive, and the pauses \<^verbatim>\<open>_delay(ms)\<close>. The trace stamps each with the clock. The
  callbacks are the caller's and are taken to return; console output is not observed.
\<close>

datatype obs =
    EvSend string string
  | EvSent message_item
  | EvFailed message_item string
  | EvDelay real

text \<open>
  Where the one activation of \<^verbatim>\<open>process()\<close> that is inside its loop waits: for the
  pending send, or for a timer, with the first instant at which the runtime may fire it.
\<close>

datatype worker = Idle | Sending | Sleeping nat

text \<open>
  The runtime's timer is a parameter of the world: \<open>timer w ms\<close> is the least number of
  milliseconds after which the runtime fires a timer set by \<^verbatim>\<open>setTimeout(f, ms)\<close>.
  Nothing is assumed of it; a statement that needs a timer to keep its delay says so.
\<close>

record world =
  session :: whatsapp_client
  mq :: message_queue
  pc :: worker
  now :: nat
  trace :: "(nat \<times> obs) list"
  timer :: "real \<Rightarrow> nat"

definition init_world ::
  "string option \<Rightarrow> real option \<Rightarrow> (real \<Rightarrow> nat) \<Rightarrow> nat \<Rightarrow> world" where
  "init_world cfg_sessionName cfg_rateLimitDelay runtime_timer t0 =
     \<lparr>session = new_WhatsAppClient cfg_sessionName, mq = new_MessageQueue cfg_rateLimitDelay,
      pc = Idle, now = t0, trace = [], timer = runtime_timer\<rparr>"

definition emit :: "obs \<Rightarrow> world \<Rightarrow> world" where
  "emit e w = w\<lparr>trace := trace w @ [(now w, e)]\<rparr>"

text \<open>\<^verbatim>\<open>await this._delay(ms)\<close>: the worker waits for a timer set for \<open>ms\<close>.\<close>

definition delay :: "real \<Rightarrow> world \<Rightarrow> world" where
  "delay ms w = emit (EvDelay ms) (w\<lparr>pc := Sleeping (now w + timer w ms)\<rparr>)"

text \<open>
  The \<^verbatim>\<open>catch\<close> block for the head item: count the attempt; at the bound call the
  failure callback and drop the head (the loop goes on at once, \<open>True\<close>), otherwise pause
  for \<^verbatim>\<open>rateLimitDelay * attempts\<close> with the head kept.
\<close>

definition send_failed ::
  "string \<Rightarrow> message_item \<Rightarrow> message_item list \<Rightarrow> world \<Rightarrow> world \<times> bool" where
  "send_failed err messageItem rest w =
     (let item = messageItem\<lparr>attempts := attempts messageItem + 1\<rparr> in
      if maxAttempts item \<le> real (attempts item)
      then ((emit (EvFailed item err) w)\<lparr>mq := (mq w)\<lparr>queue := rest\<rparr>\<rparr>, True)
      else (delay (rateLimitDelay (mq w) * real (attempts item))
              (w\<lparr>mq := (mq w)\<lparr>queue := item # rest\<rparr>\<rparr>), False))"

text \<open>The rest of the \<^verbatim>\<open>try\<close> block after a send that resolved.\<close>

definition send_ok :: "message_item \<Rightarrow> message_item list \<Rightarrow> world \<Rightarrow> world" where
  "send_ok messageItem rest w =
     delay (rateLimitDelay (mq w)) ((emit (EvSent messageItem) w)\<lparr>mq := (mq w)\<lparr>queue := rest\<rparr>\<rparr>)"

text \<open>
  The \<^verbatim>\<open>while\<close> loop from its head to the next \<^verbatim>\<open>await\<close> or to its exit. When
  \<^verbatim>\<open>getClient()\<close> throws, the \<^verbatim>\<open>catch\<close> block runs in the same turn.
\<close>

function loop :: "world \<Rightarrow> world" where
  "loop w =
     (case queue (mq w) of
        [] \<Rightarrow> w\<lparr>mq := (mq w)\<lparr>isProcessing := False\<rparr>, pc := Idle\<rparr>
      | messageItem # rest \<Rightarrow>
          (case getClient (session w) of
             Inr h \<Rightarrow>
               emit (EvSend (item_to messageItem @ ''@c.us'') (item_content messageItem))
                 (w\<lparr>pc := Sending\<rparr>)
           | Inl (Error err) \<Rightarrow>
               (case send_failed err messageItem rest w of
                  (w', True) \<Rightarrow> loop w'
                | (w', False) \<Rightarrow> w')))"
  by pat_completeness auto
termination
  by (relation "measure (\<lambda>w. length (queue (mq w)))")
     (auto simp: send_failed_def emit_def delay_def Let_def split: if_splits)

declare loop.simps [simp del]

definition process :: "world \<Rightarrow> world" where
  "process w =
     (if isProcessing (mq w) \<or> queue (mq w) = [] \<or> \<not> (mq_client (mq w) \<and> isReady (session w))
      then w
      else loop (w\<lparr>mq := (mq w)\<lparr>isProcessing := True\<rparr>\<rparr>))"

definition enqueue_error :: string where
  "enqueue_error = ''Mensagem deve ter '' @ [CHR 0x27] @ ''to'' @ [CHR 0x27] @ '' e ''
     @ [CHR 0x27] @ ''content'' @ [CHR 0x27]"

text \<open>
  The item \<^verbatim>\<open>enqueue\<close> builds. \<open>rnd\<close> is the text of \<^verbatim>\<open>Math.random()\<close> in the template
  literal of the id and \<open>t\<close> is \<^verbatim>\<open>Date.now()\<close>, the clock of the world.
\<close>

definition new_id :: "nat \<Rightarrow> string \<Rightarrow> string" where
  "new_id t rnd = show_nat t @ ''-'' @ rnd"

definition new_item :: "message \<Rightarrow> string \<Rightarrow> nat \<Rightarrow> message_item" where
  "new_item message rnd t =
     \<lparr>item_id = new_id t rnd,
      item_to = the (msg_to message),
      item_content = the (msg_content message),
      item_metadata = (case msg_metadata message of None \<Rightarrow> [] | Some md \<Rightarrow> md),
      item_timestamp = t,
      attempts = 0,
      maxAttempts = or_default (msg_maxAttempts message) 3\<rparr>"

text \<open>\<^verbatim>\<open>enqueue(message)\<close> returns the id, or the error it throws.\<close>

definition enqueue :: "message \<Rightarrow> string \<Rightarrow> world \<Rightarrow> error + (string \<times> world)" where
  "enqueue message rnd w =
     (if \<not> truthy (msg_to message) \<or> \<not> truthy (msg_content message)
      then Inl (Error enqueue_error)
      else
        let messageItem = new_item message rnd (now w);
            w1 = w\<lparr>mq := (mq w)\<lparr>queue := queue (mq w) @ [messageItem]\<rparr>\<rparr>;
            w2 = (if \<not> isProcessing (mq w1) then process w1 else w1)
        in Inr (item_id messageItem, w2))"

text \<open>
  One turn of the event loop: a call from outside, an event of a platform client, the
  completion of the pending send, the passing of time, or the timer of a pause. A
  completion that is not pending does nothing, a timer does nothing before the runtime may
  fire it, and a call that throws leaves the world as it was. \<^verbatim>\<open>getStatus()\<close> only
  reads, and \<^verbatim>\<open>clear()\<close> is not among the turns.
\<close>

datatype action =
    Initialize "error option"
  | Platform platform_event
  | Logout "error option"
  | SetClient
  | Enqueue message string
  | Process
  | SendResolves
  | SendRejects string
  | Tick nat
  | TimerFires

definition step :: "action \<Rightarrow> world \<Rightarrow> world" where
  "step a w =
     (case a of
        Initialize thrown \<Rightarrow>
          (case initialize thrown (session w) of Inl e \<Rightarrow> w | Inr c \<Rightarrow> w\<lparr>session := c\<rparr>)
      | Platform e \<Rightarrow> w\<lparr>session := on_event e (session w)\<rparr>
      | Logout rejected \<Rightarrow>
          (case logout rejected (session w) of Inl e \<Rightarrow> w | Inr c \<Rightarrow> w\<lparr>session := c\<rparr>)
      | SetClient \<Rightarrow> w\<lparr>mq := (mq w)\<lparr>mq_client := True\<rparr>\<rparr>
      | Enqueue m rnd \<Rightarrow> (case enqueue m rnd w of Inl e \<Rightarrow> w | Inr (i, w') \<Rightarrow> w')
      | Process \<Rightarrow> process w
      | SendResolves \<Rightarrow>
          (case (pc w, queue (mq w)) of
             (Sending, messageItem # rest) \<Rightarrow> send_ok messageItem rest w
           | _ \<Rightarrow> w)
      | SendRejects err \<Rightarrow>
          (case (pc w, queue (mq w)) of
             (Sending, messageItem # rest) \<Rightarrow>
               (case send_failed err messageItem rest w of
                  (w', True) \<Rightarrow> loop w'
                | (w', False) \<Rightarrow> w')
           | _ \<Rightarrow> w)
      | Tick d \<Rightarrow> w\<lparr>now := now w + d\<rparr>
      | TimerFires \<Rightarrow>
          (case pc w of
             Sleeping t \<Rightarrow> if t \<le> now w then loop w else w
           | _ \<Rightarrow> w))"

fun run :: "action list \<Rightarrow> world \<Rightarrow> world" where
  "run [] w = w"
| "run (a # as) w = run as (step a w)"

section \<open>Control server (webhookServer.js)\<close>

text \<open>
  The body of a \<^verbatim>\<open>POST /send-message\<close> request, what the platform is asked to do, and
  the responses. The platform itself is a parameter: \<^verbatim>\<open>MessageMedia.fromUrl(url, {unsafeMime})\<close>
  gives the fetched attachment or throws, and \<^verbatim>\<open>sendMessage(chatId, content, {caption})\<close>
  gives the id of the message it sent (\<^verbatim>\<open>msg.id.id\<close>) or throws.
\<close>

record send_request =
  req_chatId :: "string option"
  req_message :: "string option"
  req_mediaUrl :: "string option"
  req_mimetype :: "string option"

record message_media =
  mimetype :: string
  media_data :: string
  media_filename :: "string option"

datatype content = Text string | Media message_media

datatype platform_call =
    FromUrl string bool
  | SendMessage string content "string option"

record platform =
  fromUrl :: "string \<Rightarrow> bool \<Rightarrow> error + message_media"
  sendMessage :: "string \<Rightarrow> content \<Rightarrow> string option \<Rightarrow> error + string"

datatype response_body =
    HealthBody string bool
  | SendSuccess string
  | SendFailure string

record response =
  status :: nat
  body :: response_body


definition required_params :: string where
  "required_params =
     ''Par'' @ [CHR 0xC3, CHR 0xA2] @ ''metros '' @ [CHR 0x27] @ ''chatId'' @ [CHR 0x27]
       @ '' e '' @ [CHR 0x27] @ ''message'' @ [CHR 0x27] @ '' s'' @ [CHR 0xC3, CHR 0xA3]
       @ ''o obrigat'' @ [CHR 0xC3, CHR 0xB3] @ ''rios.''"

text \<open>
  The \<^verbatim>\<open>if (mediaUrl)\<close> block: \<open>None\<close> is \<^verbatim>\<open>media = null\<close>. \<^verbatim>\<open>mimetype != null\<close> holds for
  every string, the empty one too, while \<^verbatim>\<open>if (mimetype)\<close> needs a non-empty one.
\<close>

definition fetch_media ::
  "platform \<Rightarrow> send_request \<Rightarrow> (error + message_media option) \<times> platform_call list" where
  "fetch_media p req =
     (if truthy (req_mediaUrl req)
      then
        let mediaUrl = the (req_mediaUrl req); unsafeMime = (req_mimetype req \<noteq> None) in
        (case fromUrl p mediaUrl unsafeMime of
           Inl e \<Rightarrow> (Inl e, [FromUrl mediaUrl unsafeMime])
         | Inr media \<Rightarrow>
             (Inr (Some (if truthy (req_mimetype req)
                         then media\<lparr>mimetype := the (req_mimetype req)\<rparr> else media)),
              [FromUrl mediaUrl unsafeMime]))
      else (Inr None, []))"

text \<open>\<^verbatim>\<open>POST /send-message\<close>: the response and the platform operations, in order.\<close>

definition send_message :: "platform \<Rightarrow> send_request \<Rightarrow> response \<times> platform_call list" where
  "send_message p req =
     (if \<not> truthy (req_chatId req) \<or> \<not> truthy (req_message req)
      then (\<lparr>status = 400, body = SendFailure required_params\<rparr>, [])
      else
        let chatId = the (req_chatId req); message = the (req_message req) in
        (case fetch_media p req of
           (Inl (Error e), calls) \<Rightarrow> (\<lparr>status = 500, body = SendFailure e\<rparr>, calls)
         | (Inr media, calls) \<Rightarrow>
             let content = (case media of Some m \<Rightarrow> Media m | None \<Rightarrow> Text message);
                 caption = (case media of Some m \<Rightarrow> Some message | None \<Rightarrow> None);
                 calls' = calls @ [SendMessage chatId content caption]
             in (case sendMessage p chatId content caption of
                   Inl (Error e) \<Rightarrow> (\<lparr>status = 500, body = SendFailure e\<rparr>, calls')
                 | Inr messageId \<Rightarrow> (\<lparr>status = 200, body = SendSuccess messageId\<rparr>, calls'))))"



section \<open>Inbound relay (handlers.js)\<close>

record inbound =
  ev_id :: string
  ev_from :: string
  ev_to :: string
  ev_author :: "string option"
  ev_body :: string
  ev_type :: string
  ev_timestamp :: nat
  ev_hasMedia :: bool
  ev_mimetype :: "string option"
  ev_filename :: "string option"

record contact =
  ct_serialized :: string
  ct_name :: "string option"
  ct_pushname :: "string option"
  ct_shortName :: "string option"
  ct_isMe :: bool
  ct_isUser :: bool
  ct_isGroup :: bool

record sender =
  sd_id :: string
  sd_name :: "string option"
  sd_shortName :: "string option"
  sd_isMe :: bool
  sd_isUser :: bool
  sd_isGroup :: bool

record media_stub =
  ms_mimetype :: "string option"
  ms_filename :: "string option"

record payload =
  pl_messageId :: string
  pl_from :: string
  pl_to :: string
  pl_author :: "string option"
  pl_body :: string
  pl_type :: string
  pl_timestamp :: nat
  pl_isGroup :: bool
  pl_sender :: sender
  pl_media :: "media_stub option"

text \<open>
  What a message event finds outside: \<^verbatim>\<open>msg.getContact()\<close> and \<^verbatim>\<open>msg.getChat()\<close> (the
  chat's \<^verbatim>\<open>isGroup\<close>), which may throw, and the orchestrator's answer to a POST.
\<close>

record relay_env =
  getContact :: "error + contact"
  getChat :: "error + bool"
  post :: "string \<Rightarrow> payload \<Rightarrow> error + unit"

datatype log_entry =
    WarnNoOrchestratorUrl
  | LogReceived "string option" string string
  | LogBody string
  | LogPayload payload
  | LogForwarded string
  | ErrorWebhook string string
  | ErrorProcess string

text \<open>An HTTP POST to a URL with a JSON body and a timeout in milliseconds.\<close>

datatype http_call = Post string payload nat

text \<open>
  What a reaction did: every throw inside it is taken by its \<^verbatim>\<open>catch\<close>, so it has no
  failing outcome.
\<close>

record relay_result =
  logs :: "log_entry list"
  posts :: "http_call list"

text \<open>The constructor keeps the URL as given and warns when it is missing.\<close>

definition new_MessageHandlers :: "string option \<Rightarrow> string option \<times> log_entry list" where
  "new_MessageHandlers cfg_orchestratorUrl =
     (cfg_orchestratorUrl, if \<not> truthy cfg_orchestratorUrl then [WarnNoOrchestratorUrl] else [])"

definition forwardToOrchestrator :: "string option \<Rightarrow> relay_env \<Rightarrow> payload \<Rightarrow> relay_result" where
  "forwardToOrchestrator orchestratorUrl env pl =
     (if \<not> truthy orchestratorUrl then \<lparr>logs = [], posts = []\<rparr>
      else
        let url = the orchestratorUrl in
        (case post env url pl of
           Inr u \<Rightarrow> \<lparr>logs = [LogForwarded (pl_messageId pl)], posts = [Post url pl 10000]\<rparr>
         | Inl (Error e) \<Rightarrow> \<lparr>logs = [ErrorWebhook url e], posts = [Post url pl 10000]\<rparr>))"

definition make_payload :: "inbound \<Rightarrow> contact \<Rightarrow> bool \<Rightarrow> payload" where
  "make_payload msg ct chat_isGroup =
     \<lparr>pl_messageId = ev_id msg, pl_from = ev_from msg, pl_to = ev_to msg,
      pl_author = ev_author msg, pl_body = ev_body msg, pl_type = ev_type msg,
      pl_timestamp = ev_timestamp msg, pl_isGroup = chat_isGroup,
      pl_sender =
        \<lparr>sd_id = ct_serialized ct,
         sd_name = (if truthy (ct_name ct) then ct_name ct else ct_pushname ct),
         sd_shortName = ct_shortName ct, sd_isMe = ct_isMe ct, sd_isUser = ct_isUser ct,
         sd_isGroup = ct_isGroup ct\<rparr>,
      pl_media =
        (if ev_hasMedia msg
         then Some \<lparr>ms_mimetype = ev_mimetype msg, ms_filename = ev_filename msg\<rparr>
         else None)\<rparr>"

text \<open>The reaction to a message event; its \<^verbatim>\<open>catch\<close> logs whatever the body throws.\<close>

definition on_message :: "string option \<Rightarrow> relay_env \<Rightarrow> inbound \<Rightarrow> relay_result" where
  "on_message orchestratorUrl env msg =
     (if ev_type msg = ''e2e_notification'' \<or> ev_type msg = ''call_log''
      then \<lparr>logs = [], posts = []\<rparr>
      else
        (case getContact env of
           Inl (Error e) \<Rightarrow> \<lparr>logs = [ErrorProcess e], posts = []\<rparr>
         | Inr ct \<Rightarrow>
             (case getChat env of
                Inl (Error e) \<Rightarrow> \<lparr>logs = [ErrorProcess e], posts = []\<rparr>
              | Inr chat_isGroup \<Rightarrow>
                  let pl = make_payload msg ct chat_isGroup;
                      r = forwardToOrchestrator orchestratorUrl env pl
                  in r\<lparr>logs := [LogReceived (sd_name (pl_sender pl)) (sd_id (pl_sender pl)) (pl_type pl),
                                 LogBody (pl_body pl), LogPayload pl] @ logs r\<rparr>)))"

section \<open>Observations and sample inputs\<close>

text \<open>The items a callback has received.\<close>

fun obs_items :: "obs \<Rightarrow> message_item list" where
  "obs_items (EvSent x) = [x]"
| "obs_items (EvFailed x e) = [x]"
| "obs_items e = []"

text \<open>The log entries written with \<^verbatim>\<open>console.error\<close>: the failures a reaction reports.\<close>

fun is_error_log :: "log_entry \<Rightarrow> bool" where
  "is_error_log (ErrorWebhook url e) = True"
| "is_error_log (ErrorProcess e) = True"
| "is_error_log l = False"

text \<open>A runtime whose timers are never early.\<close>

definition punctual :: "real \<Rightarrow> nat" where
  "punctual ms = nat \<lceil>ms\<rceil>"

text \<open>
  The timer of Node, from the documentation of \<^verbatim>\<open>setTimeout\<close>: a delay above
  \<open>2147483647\<close> or below \<open>1\<close> is set to \<open>1\<close>, and a fractional delay is truncated.
\<close>

definition node_timer :: "real \<Rightarrow> nat" where
  "node_timer ms = (if ms < 1 \<or> 2147483647 < ms then 1 else nat \<lfloor>ms\<rfloor>)"

definition msg1 :: message where
  "msg1 = \<lparr>msg_to = Some ''5511'', msg_content = Some ''m1'', msg_metadata = None,
            msg_maxAttempts = None\<rparr>"

definition msg2 :: message where
  "msg2 = \<lparr>msg_to = Some ''5522'', msg_content = Some ''m2'', msg_metadata = None,
            msg_maxAttempts = Some 5\<rparr>"

definition msg3 :: message where
  "msg3 = \<lparr>msg_to = Some ''5533'', msg_content = Some ''m3'', msg_metadata = Some [(''k'', ''v'')],
            msg_maxAttempts = None\<rparr>"

definition ok_platform :: platform where
  "ok_platform =
     \<lparr>fromUrl = (\<lambda>url unsafeMime.
         Inr \<lparr>mimetype = ''image/png'', media_data = ''iVBOR'', media_filename = None\<rparr>),
      sendMessage = (\<lambda>chatId content caption. Inr ''3EB0'')\<rparr>"

definition no_fetch_platform :: platform where
  "no_fetch_platform =
     \<lparr>fromUrl = (\<lambda>url unsafeMime. Inl (Error ''fetch failed'')),
      sendMessage = (\<lambda>chatId content caption. Inr ''3EB0'')\<rparr>"

definition media_request :: send_request where
  "media_request =
     \<lparr>req_chatId = Some ''5511@c.us'', req_message = Some ''look'',
      req_mediaUrl = Some ''http://h/a.png'', req_mimetype = Some ''image/jpeg''\<rparr>"

definition text_request :: send_request where
  "text_request =
     \<lparr>req_chatId = Some ''5511@c.us'', req_message = Some ''hello'',
      req_mediaUrl = None, req_mimetype = None\<rparr>"

definition ana :: contact where
  "ana = \<lparr>ct_serialized = ''5511@c.us'', ct_name = None, ct_pushname = Some ''Ana'',
           ct_shortName = None, ct_isMe = False, ct_isUser = True, ct_isGroup = False\<rparr>"

definition relay_up :: relay_env where
  "relay_up = \<lparr>getContact = Inr ana, getChat = Inr False, post = (\<lambda>url pl. Inr ())\<rparr>"

text \<open>The same, with a contact that cannot be resolved.\<close>

definition relay_no_contact :: relay_env where
  "relay_no_contact =
     \<lparr>getContact = Inl (Error ''Evaluation failed''), getChat = Inr False,
      post = (\<lambda>url pl. Inr ())\<rparr>"

definition chat_event :: inbound where
  "chat_event =
     \<lparr>ev_id = ''A1'', ev_from = ''5511@c.us'', ev_to = ''5522@c.us'', ev_author = None,
      ev_body = ''oi'', ev_type = ''chat'', ev_timestamp = 1700, ev_hasMedia = False,
      ev_mimetype = None, ev_filename = None\<rparr>"


text \<open>A message enqueued on an attached session that is initializing and not yet Ready.\<close>

definition waiting :: world where
  "waiting = run [Initialize None, SetClient, Enqueue msg1 ''0.5''] (init_world None None punctual 0)"

text \<open>An attached, Ready session with an empty, idle queue.\<close>

definition idle_ready :: world where
  "idle_ready = run [Initialize None, Platform Ready, SetClient] (init_world None None punctual 0)"

text \<open>That world with one item queued, as \<^verbatim>\<open>process()\<close> hands it to the loop.\<close>

definition draining :: "message_item \<Rightarrow> world" where
  "draining x = idle_ready\<lparr>mq := (mq idle_ready)\<lparr>queue := [x], isProcessing := True\<rparr>\<rparr>"

text \<open>
  An attached session whose client \<^verbatim>\<open>logout()\<close> has dropped and whose dropped client
  then emitted \<^verbatim>\<open>ready\<close>: the flag is set and there is no client.
\<close>

definition stale :: world where
  "stale = run [Initialize None, SetClient, Logout None, Platform Ready]
             (init_world None None punctual 0)"

text \<open>The same idle, Ready world on Node's timer, with a delay of 3000000000 configured.\<close>

definition idle_node :: world where
  "idle_node = run [Initialize None, Platform Ready, SetClient]
                 (init_world None (Some 3000000000) node_timer 0)"

section \<open>The client handle, in the words of the amended claim\<close>

text \<open>
  A handle comes to exist by an \<^verbatim>\<open>initialize()\<close> whose client is constructed, ceases to
  exist by a \<^verbatim>\<open>logout()\<close> that resolves, and nothing else changes it.
\<close>

fun handle_step :: "whatsapp_client \<Rightarrow> action \<Rightarrow> wweb_client option" where
  "handle_step c (Initialize None) =
     (case client c of
        None \<Rightarrow> Some \<lparr>clientId = sessionName c, headless = cfg_headless c\<rparr>
      | Some h \<Rightarrow> Some h)"
| "handle_step c (Logout None) = None"
| "handle_step c a = client c"

text \<open>The handle after a sequence of turns, by that rule alone.\<close>

fun handle_run :: "whatsapp_client \<Rightarrow> action list \<Rightarrow> wweb_client option" where
  "handle_run c [] = client c"
| "handle_run c (a # as) = handle_run (c\<lparr>client := handle_step c a\<rparr>) as"

section \<open>Schedules and what they are expected to show\<close>

text \<open>
  The turns in which every send of the head item rejects, with the errors in order: the
  \<open>k\<close>-th failure is followed, unless it is the last, by the time the runtime's timer
  \<open>tm\<close> takes for the pause \<open>d * k\<close>, and by the timer.
\<close>

fun rejections :: "(real \<Rightarrow> nat) \<Rightarrow> real \<Rightarrow> nat \<Rightarrow> string list \<Rightarrow> action list" where
  "rejections tm d k [] = []"
| "rejections tm d k [e] = [SendRejects e]"
| "rejections tm d k (e # es) =
     SendRejects e # Tick (tm (d * real k)) # TimerFires # rejections tm d (Suc k) es"

text \<open>
  What those turns are expected to show for the item \<open>x\<close> from the instant \<open>t\<close> on: after
  each failure but the last the pause and the next send, after the last the failure callback
  with all attempts counted.
\<close>

fun retries ::
  "message_item \<Rightarrow> (real \<Rightarrow> nat) \<Rightarrow> real \<Rightarrow> nat \<Rightarrow> nat \<Rightarrow> string list \<Rightarrow> (nat \<times> obs) list" where
  "retries x tm d t k [] = []"
| "retries x tm d t k [e] = [(t, EvFailed (x\<lparr>attempts := k\<rparr>) e)]"
| "retries x tm d t k (e # es) =
     (t, EvDelay (d * real k))
       # (t + tm (d * real k), EvSend (item_to x @ ''@c.us'') (item_content x))
       # retries x tm d (t + tm (d * real k)) (Suc k) es"

definition attempts_trace ::
  "message_item \<Rightarrow> (real \<Rightarrow> nat) \<Rightarrow> real \<Rightarrow> nat \<Rightarrow> string list \<Rightarrow> (nat \<times> obs) list" where
  "attempts_trace x tm d t errs =
     (t, EvSend (item_to x @ ''@c.us'') (item_content x)) # retries x tm d t 1 errs"

fun is_send :: "obs \<Rightarrow> bool" where
  "is_send (EvSend chat text) = True"
| "is_send e = False"

fun is_failed :: "obs \<Rightarrow> bool" where
  "is_failed (EvFailed x e) = True"
| "is_failed e = False"

fun delays_of :: "obs list \<Rightarrow> real list" where
  "delays_of [] = []"
| "delays_of (EvDelay ms # es) = ms # delays_of es"
| "delays_of (e # es) = delays_of es"

text \<open>
  The turns in which every send resolves: the \<open>i\<close>-th send takes \<open>a\<close>, and the timer of the
  pause after it fires \<open>b\<close> after the first instant at which it may.
\<close>

fun completions :: "(real \<Rightarrow> nat) \<Rightarrow> real \<Rightarrow> (nat \<times> nat) list \<Rightarrow> action list" where
  "completions tm d [] = []"
| "completions tm d ((a, b) # ts) =
     Tick a # SendResolves # Tick (tm d + b) # TimerFires # completions tm d ts"

text \<open>What those turns are expected to show for the items \<open>xs\<close> from the instant \<open>t\<close> on.\<close>

fun dispatch ::
  "(real \<Rightarrow> nat) \<Rightarrow> real \<Rightarrow> nat \<Rightarrow> message_item list \<Rightarrow> (nat \<times> nat) list \<Rightarrow> (nat \<times> obs) list" where
  "dispatch tm d t (x # xs) ((a, b) # ts) =
     (t, EvSend (item_to x @ ''@c.us'') (item_content x)) # (t + a, EvSent x) # (t + a, EvDelay d)
       # dispatch tm d (t + a + tm d + b) xs ts"
| "dispatch tm d t xs ts = []"

text \<open>The instants at which sends completed, and a minimum gap between consecutive ones.\<close>

fun sent_times :: "(nat \<times> obs) list \<Rightarrow> nat list" where
  "sent_times [] = []"
| "sent_times ((t, EvSent x) # tr) = t # sent_times tr"
| "sent_times (p # tr) = sent_times tr"

fun spaced :: "real \<Rightarrow> nat list \<Rightarrow> bool" where
  "spaced d (t # t' # ts) = (real t + d \<le> real t' \<and> spaced d (t' # ts))"
| "spaced d ts = True"

definition enqueues :: "(message \<times> string) list \<Rightarrow> action list" where
  "enqueues ms = map (\<lambda>(m, rnd). Enqueue m rnd) ms"

definition new_items :: "(message \<times> string) list \<Rightarrow> nat \<Rightarrow> message_item list" where
  "new_items ms t = map (\<lambda>(m, rnd). new_item m rnd t) ms"

definition valid :: "message \<Rightarrow> bool" where
  "valid m = (truthy (msg_to m) \<and> truthy (msg_content m))"

section \<open>Invariants\<close>

text \<open>
  What the queue never changes: the session, the clock, the runtime, its attachment and
  its delay.
\<close>

definition same_frame :: "world \<Rightarrow> world \<Rightarrow> bool" where
  "same_frame w w' =
     (session w' = session w \<and> now w' = now w \<and> timer w' = timer w
      \<and> mq_client (mq w') = mq_client (mq w)
      \<and> rateLimitDelay (mq w') = rateLimitDelay (mq w))"

text \<open>
  An item whose \<^verbatim>\<open>maxAttempts\<close> is a positive whole number has, between turns, attempts
  left while it is queued; a callback may see the last attempt counted.
\<close>

definition whole :: "real \<Rightarrow> bool" where
  "whole r = (0 < r \<and> r = real (nat \<lfloor>r\<rfloor>))"

definition bounded :: "world \<Rightarrow> bool" where
  "bounded w =
     ((\<forall>x \<in> set (queue (mq w)). whole (maxAttempts x) \<longrightarrow> real (attempts x) < maxAttempts x)
      \<and> (\<forall>p \<in> set (trace w). \<forall>x \<in> set (obs_items (snd p)).
            whole (maxAttempts x) \<longrightarrow> real (attempts x) \<le> maxAttempts x))"

text \<open>
  The time the runtime's timer takes for the pause between sends. Completed sends are
  that far apart, and the earliest instant at which the worker can send again, the timer
  of its pause or else now, is that long after each of them; the flag is set exactly while
  the worker is in its loop. At the head of the loop the flag is set and the pause has
  passed.
\<close>

definition gap :: "world \<Rightarrow> nat" where
  "gap w = timer w (rateLimitDelay (mq w))"

definition paced :: "world \<Rightarrow> bool" where
  "paced w =
     (spaced (real (gap w)) (sent_times (trace w))
      \<and> (\<forall>s \<in> set (sent_times (trace w)).
            s + gap w \<le> (case pc w of Sleeping u \<Rightarrow> u | _ \<Rightarrow> now w))
      \<and> (isProcessing (mq w) \<longleftrightarrow> pc w \<noteq> Idle))"

definition on_time :: "world \<Rightarrow> bool" where
  "on_time w =
     (spaced (real (gap w)) (sent_times (trace w))
      \<and> (\<forall>s \<in> set (sent_times (trace w)). s + gap w \<le> now w)
      \<and> isProcessing (mq w))"

section \<open>Ids\<close>

text \<open>The id of an item determines the clock value and the random text it was made from.\<close>

lemma digit_inj: "n < 10 \<Longrightarrow> m < 10 \<Longrightarrow> digit n = digit m \<Longrightarrow> n = m"
  using nth_eq_iff_index_eq [of "''0123456789''" n m] by (simp add: digit_def)

lemma digit_not_dash: "n < 10 \<Longrightarrow> digit n \<noteq> CHR ''-''"
  using nth_mem [of n "''0123456789''"] by (auto simp: digit_def)

lemma show_nat_ne: "show_nat n \<noteq> []"
  by (subst show_nat.simps) simp

lemma show_nat_no_dash: "CHR ''-'' \<notin> set (show_nat n)"
proof (induction n rule: show_nat.induct)
  case (1 n)
  show ?case
  proof (cases "n < 10")
    case True
    then show ?thesis using digit_not_dash [of n] by (subst show_nat.simps) auto
  next
    case False
    then show ?thesis using 1 digit_not_dash [of "n mod 10"] by (subst show_nat.simps) auto
  qed
qed

lemma show_nat_inj: "show_nat n = show_nat m \<Longrightarrow> n = m"
proof (induction n arbitrary: m rule: show_nat.induct)
  case (1 n)
  show ?case
  proof (cases "n < 10")
    case n: True
    show ?thesis
    proof (cases "m < 10")
      case True
      with n 1(2) show ?thesis by (simp add: show_nat.simps [of n] show_nat.simps [of m] digit_inj)
    next
      case False
      with n 1(2) show_nat_ne [of "m div 10"] show ?thesis
        by (simp add: show_nat.simps [of n] show_nat.simps [of m])
    qed
  next
    case n: False
    show ?thesis
    proof (cases "m < 10")
      case True
      with n 1(2) show_nat_ne [of "n div 10"] show ?thesis
        by (simp add: show_nat.simps [of n] show_nat.simps [of m])
    next
      case False
      with n 1(2) have e: "show_nat (n div 10) = show_nat (m div 10)" "digit (n mod 10) = digit (m mod 10)"
        by (simp_all add: show_nat.simps [of n] show_nat.simps [of m])
      from 1(1) [OF n e(1)] have d: "n div 10 = m div 10" .
      from e(2) have "n mod 10 = m mod 10" by (auto intro: digit_inj)
      with d show ?thesis by (metis div_mult_mod_eq)
    qed
  qed
qed

lemma split_at_dash:
  "CHR ''-'' \<notin> set a \<Longrightarrow> CHR ''-'' \<notin> set a' \<Longrightarrow> a @ CHR ''-'' # b = a' @ CHR ''-'' # b'
   \<Longrightarrow> a = a' \<and> b = b'"
proof (induction a arbitrary: a')
  case Nil
  then show ?case by (cases a') auto
next
  case (Cons x a)
  then show ?case by (cases a') auto
qed

lemma new_id_inj: "new_id t r = new_id t' r' \<Longrightarrow> t = t' \<and> r = r'"
  using split_at_dash [of "show_nat t" "show_nat t'" r r'] show_nat_no_dash show_nat_inj
  by (auto simp: new_id_def)

section \<open>The loop, case by case\<close>

lemma emit_simps [simp]:
  "session (emit e w) = session w" "mq (emit e w) = mq w" "pc (emit e w) = pc w"
  "now (emit e w) = now w" "trace (emit e w) = trace w @ [(now w, e)]"
  "timer (emit e w) = timer w"
  by (simp_all add: emit_def)

lemma delay_simps [simp]:
  "session (delay ms w) = session w" "mq (delay ms w) = mq w"
  "pc (delay ms w) = Sleeping (now w + timer w ms)"
  "now (delay ms w) = now w" "trace (delay ms w) = trace w @ [(now w, EvDelay ms)]"
  "timer (delay ms w) = timer w"
  by (simp_all add: delay_def)

lemma loop_empty:
  "queue (mq w) = [] \<Longrightarrow> loop w = w\<lparr>mq := (mq w)\<lparr>isProcessing := False\<rparr>, pc := Idle\<rparr>"
  by (subst loop.simps) simp

lemma loop_send:
  "queue (mq w) = x # rest \<Longrightarrow> client (session w) = Some h \<Longrightarrow>
   loop w = emit (EvSend (item_to x @ ''@c.us'') (item_content x)) (w\<lparr>pc := Sending\<rparr>)"
  by (subst loop.simps) (simp add: getClient_def)

lemma loop_throw:
  "queue (mq w) = x # rest \<Longrightarrow> client (session w) = None \<Longrightarrow>
   loop w = (case send_failed not_initialized x rest w of
               (w', True) \<Rightarrow> loop w' | (w', False) \<Rightarrow> w')"
  by (subst loop.simps) (simp add: getClient_def)

text \<open>
  A rule for the loop: what holds at its head and is kept by a dropped item gives, at the
  exit, at the start of a send and at a pause, what holds when the loop gives up control.
\<close>

lemma loop_rule:
  assumes exit: "\<And>w. I w \<Longrightarrow> queue (mq w) = [] \<Longrightarrow>
                   Q (w\<lparr>mq := (mq w)\<lparr>isProcessing := False\<rparr>, pc := Idle\<rparr>)"
    and send: "\<And>w x rest. I w \<Longrightarrow> queue (mq w) = x # rest \<Longrightarrow>
                 Q (emit (EvSend (item_to x @ ''@c.us'') (item_content x)) (w\<lparr>pc := Sending\<rparr>))"
    and pause: "\<And>w x rest err w'. I w \<Longrightarrow> queue (mq w) = x # rest \<Longrightarrow>
                 send_failed err x rest w = (w', False) \<Longrightarrow> Q w'"
    and drop: "\<And>w x rest err w'. I w \<Longrightarrow> queue (mq w) = x # rest \<Longrightarrow>
                 send_failed err x rest w = (w', True) \<Longrightarrow> I w'"
  shows "I w \<Longrightarrow> Q (loop w)"
proof (induction w rule: loop.induct)
  case (1 w)
  show ?case
  proof (cases "queue (mq w)")
    case Nil
    with exit [OF "1.prems"] show ?thesis by (simp add: loop_empty)
  next
    case (Cons x rest)
    show ?thesis
    proof (cases "client (session w)")
      case (Some h)
      with send [OF "1.prems" Cons] Cons show ?thesis by (simp add: loop_send)
    next
      case None
      obtain w' b where sf: "send_failed not_initialized x rest w = (w', b)"
        by (cases "send_failed not_initialized x rest w")
      have g: "getClient (session w) = Inl (Error not_initialized)"
        using None by (simp add: getClient_def)
      show ?thesis
      proof (cases b)
        case True
        with drop [OF "1.prems" Cons] sf have "I w'" by simp
        with "1.IH" [OF Cons g refl] sf True have "Q (loop w')" by simp
        then show ?thesis using Cons None sf True by (simp add: loop_throw)
      next
        case False
        with pause [OF "1.prems" Cons] sf have "Q w'" by simp
        then show ?thesis using Cons None sf False by (simp add: loop_throw)
      qed
    qed
  qed
qed

lemma loop_preserves:
  assumes "\<And>w. I w \<Longrightarrow> queue (mq w) = [] \<Longrightarrow>
             I (w\<lparr>mq := (mq w)\<lparr>isProcessing := False\<rparr>, pc := Idle\<rparr>)"
    and "\<And>w x rest. I w \<Longrightarrow> queue (mq w) = x # rest \<Longrightarrow>
           I (emit (EvSend (item_to x @ ''@c.us'') (item_content x)) (w\<lparr>pc := Sending\<rparr>))"
    and "\<And>w x rest err w' b. I w \<Longrightarrow> queue (mq w) = x # rest \<Longrightarrow>
           send_failed err x rest w = (w', b) \<Longrightarrow> I w'"
  shows "I w \<Longrightarrow> I (loop w)"
  by (erule loop_rule [rotated -1]) (blast intro: assms)+

section \<open>What the queue leaves alone\<close>

lemma send_failed_frame: "send_failed err x rest w = (w', b) \<Longrightarrow> same_frame w w'"
  by (auto simp: same_frame_def send_failed_def Let_def split: if_splits)

lemma loop_frame: "same_frame w (loop w)"
proof -
  have "same_frame w w \<Longrightarrow> same_frame w (loop w)"
  proof (erule loop_preserves [rotated -1])
    fix v assume "same_frame w v"
    then show "same_frame w (v\<lparr>mq := (mq v)\<lparr>isProcessing := False\<rparr>, pc := Idle\<rparr>)"
      by (simp add: same_frame_def)
  next
    fix v x rest assume "same_frame w v"
    then show "same_frame w (emit (EvSend (item_to x @ ''@c.us'') (item_content x)) (v\<lparr>pc := Sending\<rparr>))"
      by (simp add: same_frame_def)
  next
    fix v x rest err v' b
    assume "same_frame w v" "send_failed err x rest v = (v', b)"
    then show "same_frame w v'" using send_failed_frame [of err x rest v v' b]
      by (simp add: same_frame_def)
  qed
  then show ?thesis by (simp add: same_frame_def)
qed

lemma process_frame: "same_frame w (process w)"
  using loop_frame [of "w\<lparr>mq := (mq w)\<lparr>isProcessing := True\<rparr>\<rparr>"]
  by (simp add: process_def same_frame_def)

lemma enqueue_frame: "enqueue m rnd w = Inr (i, w') \<Longrightarrow> same_frame w w'"
proof -
  assume e: "enqueue m rnd w = Inr (i, w')"
  let ?w1 = "w\<lparr>mq := (mq w)\<lparr>queue := queue (mq w) @ [new_item m rnd (now w)]\<rparr>\<rparr>"
  from e have "w' = ?w1 \<or> w' = process ?w1"
    by (auto simp: enqueue_def Let_def split: if_splits)
  then show ?thesis using process_frame [of ?w1] by (auto simp: same_frame_def)
qed

lemma step_frame:
  "rateLimitDelay (mq (step a w)) = rateLimitDelay (mq w) \<and> timer (step a w) = timer w
   \<and> session (step a w) =
       (case a of
          Initialize thrown \<Rightarrow>
            (case initialize thrown (session w) of Inl e \<Rightarrow> session w | Inr c \<Rightarrow> c)
        | Platform e \<Rightarrow> on_event e (session w)
        | Logout rejected \<Rightarrow>
            (case logout rejected (session w) of Inl e \<Rightarrow> session w | Inr c \<Rightarrow> c)
        | _ \<Rightarrow> session w)"
proof (cases a)
  case (Initialize thrown)
  then show ?thesis by (simp add: step_def split: sum.splits)
next
  case (Logout rejected)
  then show ?thesis by (simp add: step_def split: sum.splits)
next
  case (Enqueue m rnd)
  show ?thesis
  proof (cases "enqueue m rnd w")
    case (Inl e)
    with Enqueue show ?thesis by (simp add: step_def)
  next
    case (Inr r)
    obtain i w' where r: "r = (i, w')" by (cases r)
    from enqueue_frame [of m rnd w i w'] Inr r Enqueue show ?thesis
      by (simp add: step_def same_frame_def)
  qed
next
  case Process
  then show ?thesis using process_frame [of w] by (simp add: step_def same_frame_def)
next
  case SendResolves
  then show ?thesis by (simp add: step_def send_ok_def split: worker.splits list.splits)
next
  case (SendRejects err)
  show ?thesis
  proof (cases "pc w = Sending \<and> queue (mq w) \<noteq> []")
    case True
    then obtain x rest where q: "queue (mq w) = x # rest" by (cases "queue (mq w)") auto
    obtain w' b where sf: "send_failed err x rest w = (w', b)"
      by (cases "send_failed err x rest w")
    from send_failed_frame [OF sf] loop_frame [of w'] True q sf SendRejects show ?thesis
      by (cases b) (simp_all add: step_def same_frame_def)
  next
    case False
    then show ?thesis using SendRejects
      by (simp add: step_def split: worker.splits list.splits)
  qed
next
  case TimerFires
  then show ?thesis using loop_frame [of w]
    by (simp add: step_def same_frame_def split: worker.splits)
qed (simp_all add: step_def)

lemma run_frame:
  "rateLimitDelay (mq (run as w)) = rateLimitDelay (mq w) \<and> timer (run as w) = timer w"
  by (induction as arbitrary: w) (simp_all add: step_frame)

text \<open>Unfolding a run on a given world.\<close>

lemmas run_eval =
  step_def enqueue_def process_def send_ok_def send_failed_def init_world_def
  new_MessageQueue_def new_WhatsAppClient_def initialize_def on_event_def logout_def
  getClient_def or_default_def truthy_def Let_def emit_def delay_def loop.simps
  punctual_def node_timer_def

lemma show_nat_0: "show_nat 0 = ''0''"
  by (simp add: show_nat.simps digit_def)

text \<open>With a Ready session that has its client and no drain active, \<^verbatim>\<open>process()\<close> sends the head item.\<close>

lemma process_ready:
  "client (session w) = Some h \<Longrightarrow> mq_client (mq w) \<Longrightarrow> isReady (session w) \<Longrightarrow>
   \<not> isProcessing (mq w) \<Longrightarrow> queue (mq w) = x # rest \<Longrightarrow>
   process w = emit (EvSend (item_to x @ ''@c.us'') (item_content x))
                 (w\<lparr>mq := (mq w)\<lparr>isProcessing := True\<rparr>, pc := Sending\<rparr>)"
proof -
  assume a: "client (session w) = Some h" "mq_client (mq w)" "isReady (session w)"
    "\<not> isProcessing (mq w)" "queue (mq w) = x # rest"
  let ?w = "w\<lparr>mq := (mq w)\<lparr>isProcessing := True\<rparr>\<rparr>"
  have "loop ?w = emit (EvSend (item_to x @ ''@c.us'') (item_content x)) (?w\<lparr>pc := Sending\<rparr>)"
    using a by (intro loop_send [where rest = rest and h = h]) simp_all
  then show ?thesis using a by (simp add: process_def)
qed

text \<open>Unless the flag is set with no client, \<^verbatim>\<open>process()\<close> leaves the queue as it is.\<close>

lemma process_queue:
  "client (session w) \<noteq> None \<or> \<not> isReady (session w) \<Longrightarrow> queue (mq (process w)) = queue (mq w)"
proof (cases "isProcessing (mq w) \<or> queue (mq w) = [] \<or> \<not> (mq_client (mq w) \<and> isReady (session w))")
  case True
  then show ?thesis by (simp add: process_def)
next
  case False
  assume "client (session w) \<noteq> None \<or> \<not> isReady (session w)"
  with False obtain h where h: "client (session w) = Some h" by auto
  from False obtain x rest where q: "queue (mq w) = x # rest" by (cases "queue (mq w)") auto
  from process_ready [OF h _ _ _ q] False show ?thesis by simp
qed

section \<open>Session manager: the client handle\<close>

text \<open>
  Claim C6, as the specification states it, fails in both halves. After \<^verbatim>\<open>initialize()\<close>
  has created the client and before any \<^verbatim>\<open>ready\<close> event, the session is not Ready and
  \<^verbatim>\<open>getClient()\<close> returns the client instead of failing. And when \<^verbatim>\<open>logout()\<close> has
  dropped the client and the dropped client then emits \<^verbatim>\<open>ready\<close>, the session is flagged
  Ready and \<^verbatim>\<open>getClient()\<close> fails.
\<close>

theorem getClient_before_ready_counterexample:
  "\<not> isReady (session (run [Initialize None] (init_world None None punctual 0)))
   \<and> getClient (session (run [Initialize None] (init_world None None punctual 0)))
       = Inr \<lparr>clientId = ''default'', headless = True\<rparr>
   \<and> isReady (session stale)
   \<and> getClient (session stale) = Inl (Error not_initialized)"
  by (simp add: stale_def run_eval)

lemma handle_step_cong:
  "sessionName c = sessionName c' \<Longrightarrow> cfg_headless c = cfg_headless c' \<Longrightarrow>
   client c = client c' \<Longrightarrow> handle_step c a = handle_step c' a"
  by (induction c a rule: handle_step.induct) (simp_all split: option.splits)

lemma handle_run_cong:
  "sessionName c = sessionName c' \<Longrightarrow> cfg_headless c = cfg_headless c' \<Longrightarrow>
   client c = client c' \<Longrightarrow> handle_run c as = handle_run c' as"
proof (induction as arbitrary: c c')
  case Nil
  then show ?case by simp
next
  case (Cons a as)
  from Cons.prems have s: "handle_step c a = handle_step c' a" by (rule handle_step_cong)
  have "handle_run (c\<lparr>client := handle_step c a\<rparr>) as
          = handle_run (c'\<lparr>client := handle_step c' a\<rparr>) as"
    using Cons.prems s by (intro Cons.IH) simp_all
  then show ?case by simp
qed

lemma step_handle:
  "sessionName (session (step a w)) = sessionName (session w)
   \<and> cfg_headless (session (step a w)) = cfg_headless (session w)
   \<and> client (session (step a w)) = handle_step (session w) a"
proof (cases a)
  case (Initialize thrown)
  then show ?thesis
    by (cases thrown) (simp_all add: step_frame initialize_def split: option.splits)
next
  case (Logout rejected)
  then show ?thesis
    by (cases rejected) (simp_all add: step_frame logout_def split: option.splits)
next
  case (Platform e)
  then show ?thesis by (cases e) (simp_all add: step_frame on_event_def)
qed (simp_all add: step_frame)

lemma run_handle: "client (session (run as w)) = handle_run (session w) as"
proof (induction as arbitrary: w)
  case Nil
  show ?case by simp
next
  case (Cons a as)
  have "client (session (run (a # as) w)) = handle_run (session (step a w)) as"
    by (simp add: Cons.IH)
  also have "\<dots> = handle_run ((session w)\<lparr>client := handle_step (session w) a\<rparr>) as"
    by (rule handle_run_cong) (simp_all add: step_handle)
  finally show ?case by simp
qed

text \<open>
  Claim C6, amended: \<^verbatim>\<open>getClient()\<close> does not look at readiness. It returns the client
  handle exactly when one exists and fails with the not-initialized error otherwise. No
  handle exists at the start; one comes to exist by an \<^verbatim>\<open>initialize()\<close> whose client is
  constructed (a later \<^verbatim>\<open>initialize()\<close> keeps it), it ceases to exist by a \<^verbatim>\<open>logout()\<close>
  that resolves, and no other turn changes it: not a platform event, \<^verbatim>\<open>ready\<close> included,
  not an \<^verbatim>\<open>initialize()\<close> or \<^verbatim>\<open>logout()\<close> that fails, not a turn of the queue. So after
  any turns, in any order, \<^verbatim>\<open>getClient()\<close> returns the handle exactly from a successful
  \<^verbatim>\<open>initialize()\<close> until the next successful \<^verbatim>\<open>logout()\<close>.
\<close>

theorem getClient_handle:
  "getClient (session (init_world sn cfg tm t0)) = Inl (Error not_initialized)
   \<and> getClient (session (step a w))
       = (case handle_step (session w) a of
            None \<Rightarrow> Inl (Error not_initialized)
          | Some h \<Rightarrow> Inr h)
   \<and> getClient (session (run as w))
       = (case handle_run (session w) as of
            None \<Rightarrow> Inl (Error not_initialized)
          | Some h \<Rightarrow> Inr h)"
  by (simp add: getClient_def init_world_def new_WhatsAppClient_def step_handle run_handle)

theorem getClient_handle_witness:
  "getClient (session (init_world None None punctual 0)) = Inl (Error not_initialized)
   \<and> getClient (session (step (Initialize None) (init_world None None punctual 0)))
       = Inr \<lparr>clientId = ''default'', headless = True\<rparr>
   \<and> getClient (session (step (Initialize (Some (Error ''Invalid clientId'')))
                            (init_world None None punctual 0)))
       = Inl (Error not_initialized)
   \<and> getClient (session (run [Initialize None, Platform Ready, Logout (Some (Error ''closed'')),
                               Platform Disconnected] (init_world None None punctual 0)))
       = Inr \<lparr>clientId = ''default'', headless = True\<rparr>
   \<and> getClient (session (run [Initialize None, Platform Ready, Logout None, Platform Ready]
                            (init_world None None punctual 0)))
       = Inl (Error not_initialized)"
  using getClient_handle [of None None punctual 0 "Initialize None" "init_world None None punctual 0"
          "[Initialize None, Platform Ready, Logout (Some (Error ''closed'')), Platform Disconnected]"]
    getClient_handle [of None None punctual 0 "Initialize (Some (Error ''Invalid clientId''))"
      "init_world None None punctual 0"
      "[Initialize None, Platform Ready, Logout None, Platform Ready]"]
  by (simp add: init_world_def new_WhatsAppClient_def)

section \<open>Control server: health\<close>




section \<open>Control server: send-message\<close>

text \<open>
  Claim C7, as the specification states it, fails: a request with both \<^verbatim>\<open>chatId\<close> and
  \<^verbatim>\<open>message\<close> present is said to run the direct send. A request whose \<^verbatim>\<open>message\<close> is
  present and empty, an attachment without text, is answered with 400 and nothing is sent.
\<close>

theorem send_message_empty_counterexample:
  "send_message ok_platform
     \<lparr>req_chatId = Some ''5511@c.us'', req_message = Some '''',
      req_mediaUrl = Some ''http://h/a.png'', req_mimetype = None\<rparr>
   = (\<lparr>status = 400, body = SendFailure required_params\<rparr>, [])"
  by (simp add: send_message_def truthy_def)

text \<open>
  Claim C7, amended: for every request in which \<^verbatim>\<open>chatId\<close> or \<^verbatim>\<open>message\<close> is absent or
  empty the server answers 400 without any platform operation; for every request with both
  non-empty it runs the direct send and answers 200 with the id of the message the platform
  sent, or 500 with the error's message when fetching the attachment or sending fails.
\<close>

theorem send_message_status:
  "(\<not> truthy (req_chatId req) \<or> \<not> truthy (req_message req) \<longrightarrow>
      send_message p req = (\<lparr>status = 400, body = SendFailure required_params\<rparr>, []))
   \<and> (truthy (req_chatId req) \<and> truthy (req_message req) \<longrightarrow>
        (\<forall>e calls. fetch_media p req = (Inl (Error e), calls) \<longrightarrow>
           send_message p req = (\<lparr>status = 500, body = SendFailure e\<rparr>, calls))
      \<and> (\<forall>media calls content caption.
           fetch_media p req = (Inr media, calls)
           \<and> content = (case media of Some m \<Rightarrow> Media m | None \<Rightarrow> Text (the (req_message req)))
           \<and> caption = (case media of Some m \<Rightarrow> req_message req | None \<Rightarrow> None) \<longrightarrow>
             (\<forall>messageId. sendMessage p (the (req_chatId req)) content caption = Inr messageId \<longrightarrow>
                send_message p req
                  = (\<lparr>status = 200, body = SendSuccess messageId\<rparr>,
                     calls @ [SendMessage (the (req_chatId req)) content caption]))
           \<and> (\<forall>e. sendMessage p (the (req_chatId req)) content caption = Inl (Error e) \<longrightarrow>
                send_message p req
                  = (\<lparr>status = 500, body = SendFailure e\<rparr>,
                     calls @ [SendMessage (the (req_chatId req)) content caption]))))"
  by (auto simp: send_message_def Let_def truthy_def split: option.splits)

theorem send_message_status_witness:
  "truthy (req_chatId text_request) \<and> truthy (req_message text_request)
   \<and> send_message ok_platform text_request
       = (\<lparr>status = 200, body = SendSuccess ''3EB0''\<rparr>,
          [SendMessage ''5511@c.us'' (Text ''hello'') None])"
  using send_message_status [of text_request ok_platform]
  by (simp add: text_request_def ok_platform_def truthy_def fetch_media_def)

text \<open>
  Claim C8, as the specification states it, fails in four places: a \<^verbatim>\<open>mimetype\<close> supplied
  as the empty string does not replace the detected one (while it does switch
  \<^verbatim>\<open>unsafeMime\<close> on); when the fetch fails nothing is sent; a \<^verbatim>\<open>mediaUrl\<close> set to the
  empty string is not fetched and the text is sent alone; and a request with \<^verbatim>\<open>mediaUrl\<close>
  set that lacks \<^verbatim>\<open>chatId\<close> is rejected before any fetch.
\<close>

theorem send_message_media_counterexample:
  "snd (send_message ok_platform (media_request\<lparr>req_mimetype := Some ''''\<rparr>))
     = [FromUrl ''http://h/a.png'' True,
        SendMessage ''5511@c.us''
          (Media \<lparr>mimetype = ''image/png'', media_data = ''iVBOR'', media_filename = None\<rparr>)
          (Some ''look'')]
   \<and> snd (send_message no_fetch_platform media_request) = [FromUrl ''http://h/a.png'' True]
   \<and> snd (send_message ok_platform (media_request\<lparr>req_mediaUrl := Some ''''\<rparr>))
       = [SendMessage ''5511@c.us'' (Text ''look'') None]
   \<and> snd (send_message ok_platform (media_request\<lparr>req_chatId := None\<rparr>)) = []"
  by (simp add: send_message_def fetch_media_def truthy_def ok_platform_def
        no_fetch_platform_def media_request_def)

text \<open>
  Claim C8, amended: for every request that passes validation (\<^verbatim>\<open>chatId\<close> and \<^verbatim>\<open>message\<close>
  non-empty) with a non-empty \<^verbatim>\<open>mediaUrl\<close>, the server fetches the resource, with
  \<^verbatim>\<open>unsafeMime\<close> set when a \<^verbatim>\<open>mimetype\<close> was given; when the fetch succeeds it sends the
  attachment with the message text as caption, the attachment's mimetype replaced by the
  request's when that is non-empty; when the fetch fails nothing is sent. When
  \<^verbatim>\<open>mediaUrl\<close> is absent or empty the message text is sent with no caption.
\<close>

theorem send_message_media:
  "truthy (req_chatId req) \<and> truthy (req_message req) \<longrightarrow>
     (truthy (req_mediaUrl req) \<longrightarrow>
        (\<forall>media. fromUrl p (the (req_mediaUrl req)) (req_mimetype req \<noteq> None) = Inr media \<longrightarrow>
           snd (send_message p req)
             = [FromUrl (the (req_mediaUrl req)) (req_mimetype req \<noteq> None),
                SendMessage (the (req_chatId req))
                  (Media (if truthy (req_mimetype req)
                          then media\<lparr>mimetype := the (req_mimetype req)\<rparr> else media))
                  (req_message req)])
      \<and> (\<forall>e. fromUrl p (the (req_mediaUrl req)) (req_mimetype req \<noteq> None) = Inl e \<longrightarrow>
           snd (send_message p req)
             = [FromUrl (the (req_mediaUrl req)) (req_mimetype req \<noteq> None)]))
   \<and> (\<not> truthy (req_mediaUrl req) \<longrightarrow>
        snd (send_message p req)
          = [SendMessage (the (req_chatId req)) (Text (the (req_message req))) None])"
  by (auto simp: send_message_def fetch_media_def Let_def truthy_def
        split: option.splits sum.splits error.splits)

theorem send_message_media_witness:
  "truthy (req_chatId media_request) \<and> truthy (req_message media_request)
   \<and> truthy (req_mediaUrl media_request)
   \<and> snd (send_message ok_platform media_request)
       = [FromUrl ''http://h/a.png'' True,
          SendMessage ''5511@c.us''
            (Media \<lparr>mimetype = ''image/jpeg'', media_data = ''iVBOR'', media_filename = None\<rparr>)
            (Some ''look'')]"
  using send_message_media [of media_request ok_platform]
  by (simp add: media_request_def ok_platform_def truthy_def)

section \<open>Inbound relay without an orchestrator\<close>

text \<open>
  Claim C10, as the specification states it, fails in its conclusion: with no orchestrator
  URL every inbound message is said to be dropped without any failure being reported. A
  message whose contact cannot be resolved is dropped with the failure logged by
  \<^verbatim>\<open>console.error\<close>.
\<close>

theorem forward_without_url_counterexample:
  "on_message None relay_no_contact chat_event
     = \<lparr>logs = [ErrorProcess ''Evaluation failed''], posts = []\<rparr>
   \<and> list_ex is_error_log (logs (on_message None relay_no_contact chat_event))"
  by (simp add: on_message_def relay_no_contact_def chat_event_def)

text \<open>
  Claim C10, amended: when no orchestrator URL is configured (it is absent or empty), the
  constructor logs its warning, and processing an inbound message event makes no HTTP
  POST: the forward step does and logs nothing, so every inbound message is dropped. The
  drop is not reported; a failure is reported, by \<^verbatim>\<open>console.error\<close>, exactly when the
  contact or the chat of a message that is not filtered out cannot be resolved.
\<close>

theorem forward_without_url:
  "\<not> truthy orchestratorUrl \<Longrightarrow>
     snd (new_MessageHandlers orchestratorUrl) = [WarnNoOrchestratorUrl]
   \<and> forwardToOrchestrator orchestratorUrl env pl = \<lparr>logs = [], posts = []\<rparr>
   \<and> posts (on_message orchestratorUrl env msg) = []
   \<and> (list_ex is_error_log (logs (on_message orchestratorUrl env msg))
        \<longleftrightarrow> ev_type msg \<noteq> ''e2e_notification'' \<and> ev_type msg \<noteq> ''call_log''
            \<and> (isl (getContact env) \<or> isl (getChat env)))"
  by (auto simp: new_MessageHandlers_def forwardToOrchestrator_def on_message_def Let_def
        split: sum.splits error.splits)

theorem forward_without_url_witness:
  "\<not> truthy None
   \<and> on_message None relay_up chat_event
       = \<lparr>logs = [LogReceived (Some ''Ana'') ''5511@c.us'' ''chat'', LogBody ''oi'',
                   LogPayload (make_payload chat_event ana False)],
          posts = []\<rparr>
   \<and> \<not> list_ex is_error_log (logs (on_message None relay_up chat_event))"
  using forward_without_url [where orchestratorUrl = None and env = relay_up and msg = chat_event]
  by (simp add: truthy_def on_message_def relay_up_def chat_event_def make_payload_def
        forwardToOrchestrator_def ana_def)

section \<open>Outbound queue: the attempts of an item\<close>

lemma whole_next: "whole r \<Longrightarrow> real a < r \<Longrightarrow> real (Suc a) \<le> r"
proof -
  assume w: "whole r" and a: "real a < r"
  from w obtain k where k: "r = real k" unfolding whole_def by blast
  with a have "a < k" by simp
  then show ?thesis by (simp add: k)
qed

lemma bounded_send_failed:
  "bounded w \<Longrightarrow> queue (mq w) = x # rest \<Longrightarrow> send_failed err x rest w = (w', b) \<Longrightarrow> bounded w'"
proof -
  assume b: "bounded w" and q: "queue (mq w) = x # rest"
    and sf: "send_failed err x rest w = (w', b)"
  let ?x = "x\<lparr>attempts := attempts x + 1\<rparr>"
  from b q have x: "whole (maxAttempts x) \<longrightarrow> real (attempts x) < maxAttempts x"
    and r: "\<forall>y \<in> set rest. whole (maxAttempts y) \<longrightarrow> real (attempts y) < maxAttempts y"
    and t: "\<forall>p \<in> set (trace w). \<forall>y \<in> set (obs_items (snd p)).
              whole (maxAttempts y) \<longrightarrow> real (attempts y) \<le> maxAttempts y"
    by (simp_all add: bounded_def)
  show ?thesis
  proof (cases "maxAttempts ?x \<le> real (attempts ?x)")
    case True
    with sf have w': "w' = (emit (EvFailed ?x err) w)\<lparr>mq := (mq w)\<lparr>queue := rest\<rparr>\<rparr>"
      by (simp add: send_failed_def)
    have "whole (maxAttempts ?x) \<longrightarrow> real (attempts ?x) \<le> maxAttempts ?x"
      using x whole_next [of "maxAttempts x" "attempts x"] by simp
    then show ?thesis using r t unfolding w' by (simp add: bounded_def)
  next
    case False
    with sf have w': "w' = delay (rateLimitDelay (mq w) * real (attempts ?x))
                             (w\<lparr>mq := (mq w)\<lparr>queue := ?x # rest\<rparr>\<rparr>)"
      by (simp add: send_failed_def)
    from False have "real (attempts ?x) < maxAttempts ?x" by simp
    then show ?thesis using r t unfolding w' by (simp add: bounded_def)
  qed
qed

lemma bounded_loop: "bounded w \<Longrightarrow> bounded (loop w)"
proof (erule loop_preserves [rotated -1])
  fix w assume "bounded w"
  then show "bounded (w\<lparr>mq := (mq w)\<lparr>isProcessing := False\<rparr>, pc := Idle\<rparr>)"
    by (simp add: bounded_def)
next
  fix w x rest assume "bounded w"
  then show "bounded (emit (EvSend (item_to x @ ''@c.us'') (item_content x)) (w\<lparr>pc := Sending\<rparr>))"
    by (auto simp: bounded_def)
next
  fix w x rest err w' b
  assume "bounded w" "queue (mq w) = x # rest" "send_failed err x rest w = (w', b)"
  then show "bounded w'" by (rule bounded_send_failed)
qed

lemma bounded_process: "bounded w \<Longrightarrow> bounded (process w)"
proof -
  assume b: "bounded w"
  then have "bounded (w\<lparr>mq := (mq w)\<lparr>isProcessing := True\<rparr>\<rparr>)" by (simp add: bounded_def)
  then show ?thesis using b by (simp add: process_def bounded_loop)
qed

lemma bounded_enqueue: "bounded w \<Longrightarrow> enqueue m rnd w = Inr (i, w') \<Longrightarrow> bounded w'"
proof -
  assume b: "bounded w" and e: "enqueue m rnd w = Inr (i, w')"
  have "bounded (w\<lparr>mq := (mq w)\<lparr>queue := queue (mq w) @ [new_item m rnd (now w)]\<rparr>\<rparr>)"
    using b by (auto simp: bounded_def new_item_def whole_def)
  then show ?thesis using e by (auto simp: enqueue_def Let_def bounded_process split: if_splits)
qed

lemma bounded_step: "bounded w \<Longrightarrow> bounded (step a w)"
proof (cases a)
  case (Enqueue m rnd)
  assume "bounded w"
  then show ?thesis using Enqueue by (auto simp: step_def split: sum.splits dest: bounded_enqueue)
next
  case Process
  assume "bounded w"
  then show ?thesis using Process by (simp add: step_def bounded_process)
next
  case SendResolves
  assume "bounded w"
  then show ?thesis using SendResolves
    by (auto simp: step_def send_ok_def bounded_def less_imp_le split: worker.splits list.splits)
next
  case (SendRejects err)
  assume b: "bounded w"
  show ?thesis
  proof (cases "pc w = Sending \<and> queue (mq w) \<noteq> []")
    case True
    then obtain x rest where q: "queue (mq w) = x # rest" by (cases "queue (mq w)") auto
    obtain w' c where sf: "send_failed err x rest w = (w', c)"
      by (cases "send_failed err x rest w")
    from bounded_send_failed [OF b q sf] bounded_loop [of w'] True q sf SendRejects show ?thesis
      by (cases c) (simp_all add: step_def)
  next
    case False
    then show ?thesis using b SendRejects
      by (simp add: step_def split: worker.splits list.splits)
  qed
next
  case TimerFires
  assume "bounded w"
  then show ?thesis using TimerFires by (auto simp: step_def split: worker.splits intro: bounded_loop)
qed (auto simp: step_def bounded_def split: sum.splits)

lemma bounded_run: "bounded w \<Longrightarrow> bounded (run as w)"
  by (induction as arbitrary: w) (simp_all add: bounded_step)

lemma bounded_init: "bounded (init_world sn cfg tm t0)"
  by (simp add: bounded_def init_world_def new_MessageQueue_def)

text \<open>
  Claim C5, as the specification states it, fails: \<^verbatim>\<open>enqueue\<close> keeps any number but
  \<open>0\<close> as \<^verbatim>\<open>maxAttempts\<close>. An item enqueued with \<^verbatim>\<open>maxAttempts: -1\<close> sits in the queue
  with \<open>0\<close> attempts, more than its \<^verbatim>\<open>maxAttempts\<close>; an item enqueued with
  \<^verbatim>\<open>maxAttempts: 0.5\<close> reaches the failure callback with \<open>1\<close> attempt.
\<close>

theorem attempts_counterexample:
  "list_ex (\<lambda>x. \<not> real (attempts x) \<le> maxAttempts x)
     (queue (mq (run [Enqueue (msg1\<lparr>msg_maxAttempts := Some (- 1)\<rparr>) ''0.5'']
                  (init_world None None punctual 0))))
   \<and> list_ex (\<lambda>p. list_ex (\<lambda>x. \<not> real (attempts x) \<le> maxAttempts x) (obs_items (snd p)))
       (trace (run [Enqueue (msg1\<lparr>msg_maxAttempts := Some (1 / 2)\<rparr>) ''0.5'', SendRejects ''timeout'']
                 idle_ready))"
  by (simp add: idle_ready_def run_eval msg1_def new_item_def)

text \<open>
  Claim C5, amended: in every world the service can reach, after any turns of the event
  loop in any order and on any runtime, every item whose \<^verbatim>\<open>maxAttempts\<close> is a positive
  whole number, in the queue or as a callback received it, has \<^verbatim>\<open>attempts\<close> at most
  \<^verbatim>\<open>maxAttempts\<close>. An item enqueued with \<^verbatim>\<open>maxAttempts\<close> absent or \<open>0\<close> is such an item:
  its \<^verbatim>\<open>maxAttempts\<close> is \<open>3\<close>.
\<close>

theorem attempts_le_maxAttempts:
  "(\<forall>x \<in> set (queue (mq (run as (init_world sn cfg tm t0))))
        \<union> (\<Union>p \<in> set (trace (run as (init_world sn cfg tm t0))). set (obs_items (snd p))).
      whole (maxAttempts x) \<longrightarrow> real (attempts x) \<le> maxAttempts x)
   \<and> (msg_maxAttempts m = None \<or> msg_maxAttempts m = Some 0 \<longrightarrow>
        maxAttempts (new_item m rnd t) = 3 \<and> whole (maxAttempts (new_item m rnd t)))"
proof -
  have "bounded (run as (init_world sn cfg tm t0))" by (rule bounded_run [OF bounded_init])
  then have "\<forall>x \<in> set (queue (mq (run as (init_world sn cfg tm t0))))
        \<union> (\<Union>p \<in> set (trace (run as (init_world sn cfg tm t0))). set (obs_items (snd p))).
      whole (maxAttempts x) \<longrightarrow> real (attempts x) \<le> maxAttempts x"
    by (fastforce simp: bounded_def)
  moreover have "msg_maxAttempts m = None \<or> msg_maxAttempts m = Some 0 \<longrightarrow>
        maxAttempts (new_item m rnd t) = 3 \<and> whole (maxAttempts (new_item m rnd t))"
    by (auto simp: new_item_def or_default_def whole_def)
  ultimately show ?thesis by blast
qed

theorem attempts_le_maxAttempts_witness:
  "(new_item msg1 ''0.5'' 0)\<lparr>attempts := 1\<rparr>
     \<in> set (queue (mq (run [Initialize None, Platform Ready, SetClient, Enqueue msg1 ''0.5'',
                             SendRejects ''timeout''] (init_world None None punctual 0))))
   \<and> whole (maxAttempts ((new_item msg1 ''0.5'' 0)\<lparr>attempts := 1\<rparr>))
   \<and> real (attempts ((new_item msg1 ''0.5'' 0)\<lparr>attempts := 1\<rparr>))
       \<le> maxAttempts ((new_item msg1 ''0.5'' 0)\<lparr>attempts := 1\<rparr>)"
  using attempts_le_maxAttempts
          [of "[Initialize None, Platform Ready, SetClient, Enqueue msg1 ''0.5'',
                SendRejects ''timeout'']" None None punctual 0 msg1 "''0.5''" 0]
  by (simp add: run_eval msg1_def new_item_def whole_def)

section \<open>Outbound queue: enqueue\<close>

text \<open>
  Claim C3, as the specification states it, fails. An item whose destination is present
  and empty is refused, though both fields are present. An accepted item is not always at
  the tail of the queue when \<^verbatim>\<open>enqueue\<close> returns: on a session whose flag is set and
  whose client \<^verbatim>\<open>logout()\<close> has dropped, the drain that \<^verbatim>\<open>enqueue\<close> starts gives up an
  item with \<^verbatim>\<open>maxAttempts: 1\<close> in the same call, and the queue is empty. And the id is the
  clock followed by a random number, so two items enqueued in the same millisecond with
  the same random draw carry the same id.
\<close>

theorem enqueue_counterexample:
  "enqueue \<lparr>msg_to = Some '''', msg_content = Some ''m1'', msg_metadata = None,
            msg_maxAttempts = None\<rparr> ''0.5'' (init_world None None punctual 0)
     = Inl (Error enqueue_error)
   \<and> isl (enqueue (msg1\<lparr>msg_maxAttempts := Some 1\<rparr>) ''0.5'' stale) = False
   \<and> queue (mq stale) = []
   \<and> queue (mq (step (Enqueue (msg1\<lparr>msg_maxAttempts := Some 1\<rparr>) ''0.5'') stale)) = []
   \<and> map item_id (queue (mq (run [Enqueue msg1 ''0.5'', Enqueue msg1 ''0.5'']
                                (init_world None None punctual 0))))
       = [''0-0.5'', ''0-0.5'']"
  by (simp add: stale_def run_eval msg1_def new_item_def new_id_def show_nat_0)

text \<open>
  Claim C3, amended: in every world, for every input item whose destination or content is
  absent or empty, \<^verbatim>\<open>enqueue\<close> throws and leaves the world, and so the queue, as it was;
  for every item with both non-empty it returns the id made of the clock, a dash and the
  random number, and, unless the session's flag is set with no client while the queue is
  attached and idle, the queue is then the old one with the new item at its tail. Two such
  ids are equal only if the clock values and the random texts are.
\<close>

theorem enqueue_checked:
  "(\<not> truthy (msg_to m) \<or> \<not> truthy (msg_content m) \<longrightarrow>
        enqueue m rnd w = Inl (Error enqueue_error) \<and> step (Enqueue m rnd) w = w)
   \<and> (truthy (msg_to m) \<and> truthy (msg_content m) \<longrightarrow>
        (\<exists>w'. enqueue m rnd w = Inr (new_id (now w) rnd, w')
            \<and> step (Enqueue m rnd) w = w'
            \<and> (isProcessing (mq w) \<or> \<not> mq_client (mq w) \<or> \<not> isReady (session w)
                 \<or> client (session w) \<noteq> None \<longrightarrow>
               queue (mq w') = queue (mq w) @ [new_item m rnd (now w)])))
   \<and> (new_id t r = new_id t' r' \<longrightarrow> t = t' \<and> r = r')"
proof -
  let ?w1 = "w\<lparr>mq := (mq w)\<lparr>queue := queue (mq w) @ [new_item m rnd (now w)]\<rparr>\<rparr>"
  have idle: "\<not> mq_client (mq w) \<Longrightarrow> process ?w1 = ?w1" by (simp add: process_def)
  have live: "\<not> isReady (session w) \<or> client (session w) \<noteq> None \<Longrightarrow>
                queue (mq (process ?w1)) = queue (mq ?w1)"
    by (intro process_queue) auto
  have good: "truthy (msg_to m) \<and> truthy (msg_content m) \<longrightarrow>
        (\<exists>w'. enqueue m rnd w = Inr (new_id (now w) rnd, w')
            \<and> step (Enqueue m rnd) w = w'
            \<and> (isProcessing (mq w) \<or> \<not> mq_client (mq w) \<or> \<not> isReady (session w)
                 \<or> client (session w) \<noteq> None \<longrightarrow>
               queue (mq w') = queue (mq w) @ [new_item m rnd (now w)]))"
    using idle live by (auto simp: enqueue_def step_def Let_def new_item_def)
  have bad: "\<not> truthy (msg_to m) \<or> \<not> truthy (msg_content m) \<longrightarrow>
        enqueue m rnd w = Inl (Error enqueue_error) \<and> step (Enqueue m rnd) w = w"
    by (auto simp: enqueue_def step_def)
  from good bad new_id_inj [of t r t' r'] show ?thesis by blast
qed

theorem enqueue_checked_witness:
  "truthy (msg_to msg1) \<and> truthy (msg_content msg1) \<and> client (session idle_ready) \<noteq> None
   \<and> enqueue msg1 ''0.5'' idle_ready
       = Inr (''0-0.5'', step (Enqueue msg1 ''0.5'') idle_ready)
   \<and> queue (mq (step (Enqueue msg1 ''0.5'') idle_ready)) = [new_item msg1 ''0.5'' 0]"
proof -
  have a: "truthy (msg_to msg1)" "truthy (msg_content msg1)"
    by (simp_all add: msg1_def truthy_def)
  have b: "client (session idle_ready) \<noteq> None" "now idle_ready = 0" "queue (mq idle_ready) = []"
    by (simp_all add: idle_ready_def run_eval)
  have c: "new_id 0 ''0.5'' = ''0-0.5''" by (simp add: new_id_def show_nat_0)
  from enqueue_checked [of msg1 "''0.5''" idle_ready 0 "''0.5''" 0 "''0.5''"] a b c
  show ?thesis by auto
qed

section \<open>Outbound queue: readiness\<close>

text \<open>
  Claim C1, as the specification states it, fails: a drain that found the session not Ready
  is said to resume with the same head item when readiness returns. Here the item was
  enqueued before Ready; the session then becomes Ready and a minute passes: the item is
  still at the head, no send was attempted, no drain is active, and no timer or completion
  is pending that could start one.
\<close>

theorem no_resume_counterexample:
  "isReady (session (run [Platform Ready, Tick 60000] waiting))
   \<and> queue (mq (run [Platform Ready, Tick 60000] waiting)) = [new_item msg1 ''0.5'' 0]
   \<and> pc (run [Platform Ready, Tick 60000] waiting) = Idle
   \<and> trace (run [Platform Ready, Tick 60000] waiting) = []
   \<and> step TimerFires (run [Platform Ready, Tick 60000] waiting)
       = run [Platform Ready, Tick 60000] waiting
   \<and> step SendResolves (run [Platform Ready, Tick 60000] waiting)
       = run [Platform Ready, Tick 60000] waiting"
  by (simp add: waiting_def run_eval msg1_def new_item_def)

text \<open>
  Claim C1, amended: a drain starts only while the session is Ready. In every world, a
  call of \<^verbatim>\<open>process()\<close> that finds the session not Ready, or no session attached,
  returns at once: no send is attempted and the queue is as it was, so no item is skipped.
  A platform event, \<^verbatim>\<open>ready\<close> included, changes neither the queue nor the worker nor
  what was sent: it starts or resumes nothing. The next call of \<^verbatim>\<open>process()\<close> made
  while the session is Ready and has its client and no drain is active (every \<^verbatim>\<open>enqueue\<close>
  makes one) starts by sending the same head item.
\<close>

theorem process_only_when_ready:
  "(\<not> (mq_client (mq w) \<and> isReady (session w)) \<longrightarrow> process w = w)
   \<and> mq (step (Platform e) w) = mq w \<and> pc (step (Platform e) w) = pc w
   \<and> trace (step (Platform e) w) = trace w
   \<and> (mq_client (mq w) \<and> isReady (session w) \<and> client (session w) \<noteq> None
        \<and> \<not> isProcessing (mq w) \<and> queue (mq w) = x # rest \<longrightarrow>
        process w = emit (EvSend (item_to x @ ''@c.us'') (item_content x))
                      (w\<lparr>mq := (mq w)\<lparr>isProcessing := True\<rparr>, pc := Sending\<rparr>))"
proof -
  have "mq_client (mq w) \<and> isReady (session w) \<and> client (session w) \<noteq> None
        \<and> \<not> isProcessing (mq w) \<and> queue (mq w) = x # rest \<longrightarrow>
        process w = emit (EvSend (item_to x @ ''@c.us'') (item_content x))
                      (w\<lparr>mq := (mq w)\<lparr>isProcessing := True\<rparr>, pc := Sending\<rparr>)"
    using process_ready [of w _ x rest] by auto
  then show ?thesis by (simp add: process_def step_def)
qed

theorem process_only_when_ready_witness:
  "\<not> isReady (session waiting) \<and> queue (mq waiting) = [new_item msg1 ''0.5'' 0]
   \<and> process waiting = waiting
   \<and> isReady (session (step (Platform Ready) waiting))
   \<and> client (session (step (Platform Ready) waiting)) \<noteq> None
   \<and> trace (process (step (Platform Ready) waiting)) = [(0, EvSend ''5511@c.us'' ''m1'')]"
proof -
  let ?v = "step (Platform Ready) waiting"
  have a: "\<not> isReady (session waiting)" "queue (mq waiting) = [new_item msg1 ''0.5'' 0]"
    by (simp_all add: waiting_def run_eval msg1_def new_item_def)
  have b: "mq_client (mq ?v)" "isReady (session ?v)" "client (session ?v) \<noteq> None"
    "\<not> isProcessing (mq ?v)" "queue (mq ?v) = [new_item msg1 ''0.5'' 0]"
    "trace ?v = []" "now ?v = 0"
    by (simp_all add: waiting_def run_eval msg1_def new_item_def)
  have c: "item_to (new_item msg1 ''0.5'' 0) = ''5511''" "item_content (new_item msg1 ''0.5'' 0) = ''m1''"
    by (simp_all add: msg1_def new_item_def)
  from process_only_when_ready [of waiting Ready "new_item msg1 ''0.5'' 0" "[]"] a
  have p: "process waiting = waiting" by simp
  from process_only_when_ready [of ?v Ready "new_item msg1 ''0.5'' 0" "[]"] b c
  have "trace (process ?v) = [(0, EvSend ''5511@c.us'' ''m1'')]" by simp
  with a b p show ?thesis by simp
qed

text \<open>
  Readiness is tested on entry to \<^verbatim>\<open>process()\<close> only. A drain that is running does not
  test it again: after a disconnect the next item is sent all the same.
\<close>

lemma drain_does_not_recheck_ready:
  "\<not> isReady (session (run [Enqueue msg1 ''0.5'', Enqueue msg1 ''0.7'', Platform Disconnected,
                             SendResolves, Tick 8000] idle_ready))
   \<and> trace (step TimerFires (run [Enqueue msg1 ''0.5'', Enqueue msg1 ''0.7'', Platform Disconnected,
                                   SendResolves, Tick 8000] idle_ready))
     = trace (run [Enqueue msg1 ''0.5'', Enqueue msg1 ''0.7'', Platform Disconnected,
                   SendResolves, Tick 8000] idle_ready)
       @ [(8000, EvSend ''5511@c.us'' ''m1'')]"
  by (simp add: idle_ready_def run_eval msg1_def new_item_def)

section \<open>Outbound queue: an item that always fails\<close>

lemma retries_attempts: "retries (x\<lparr>attempts := a\<rparr>) tm d t k errs = retries x tm d t k errs"
  by (induction x tm d t k errs rule: retries.induct) simp_all

lemma retries_sends:
  "length (filter is_send (map snd (retries x tm d t k errs))) = length errs - 1"
  by (induction x tm d t k errs rule: retries.induct) simp_all

lemma retries_failed:
  "errs \<noteq> [] \<Longrightarrow>
   filter is_failed (map snd (retries x tm d t k errs))
     = [EvFailed (x\<lparr>attempts := k + length errs - 1\<rparr>) (last errs)]"
  by (induction x tm d t k errs rule: retries.induct) simp_all

lemma retries_delays:
  "delays_of (map snd (retries x tm d t k errs))
     = map (\<lambda>j. d * real j) [k..<k + (length errs - 1)]"
proof (induction x tm d t k errs rule: retries.induct)
  case (3 x tm d t k e v va)
  have "delays_of (map snd (retries x tm d t k (e # v # va)))
          = d * real k # delays_of (map snd (retries x tm d (t + tm (d * real k)) (Suc k) (v # va)))"
    by simp
  also have "\<dots> = d * real k # map (\<lambda>j. d * real j) [Suc k..<Suc k + (length (v # va) - 1)]"
    by (simp only: 3)
  also have "\<dots> = map (\<lambda>j. d * real j) (k # [Suc k..<Suc (k + length va)])"
    by simp
  also have "k # [Suc k..<Suc (k + length va)] = [k..<k + (length (e # v # va) - 1)]"
    by (simp add: upt_conv_Cons del: upt_Suc)
  finally show ?case .
qed simp_all

lemma loop_live:
  "client (session w) = Some h \<Longrightarrow>
   queue (mq (loop w)) = queue (mq w)
   \<and> trace (loop w) = trace w @ (case queue (mq w) of [] \<Rightarrow> []
        | y # ys \<Rightarrow> [(now w, EvSend (item_to y @ ''@c.us'') (item_content y))])"
  by (cases "queue (mq w)") (simp_all add: loop_empty loop_send)

lemma rejections_run:
  "pc w = Sending \<Longrightarrow> queue (mq w) = x # rest \<Longrightarrow> client (session w) = Some h \<Longrightarrow>
   errs \<noteq> [] \<Longrightarrow> maxAttempts x = real n \<Longrightarrow> attempts x + length errs = n \<Longrightarrow>
   run (rejections (timer w) (rateLimitDelay (mq w)) (Suc (attempts x)) errs) w
     = loop (w\<lparr>mq := (mq w)\<lparr>queue := rest\<rparr>,
               now := now w + (\<Sum>k = Suc (attempts x)..<n. timer w (rateLimitDelay (mq w) * real k)),
               trace := trace w @ retries x (timer w) (rateLimitDelay (mq w)) (now w)
                                    (Suc (attempts x)) errs\<rparr>)"
proof (induction errs arbitrary: w x)
  case Nil
  then show ?case by simp
next
  case (Cons e es)
  let ?d = "rateLimitDelay (mq w)"
  let ?k = "Suc (attempts x)"
  let ?x = "x\<lparr>attempts := ?k\<rparr>"
  show ?case
  proof (cases es)
    case Nil
    with Cons.prems have m: "n = ?k" by simp
    with Cons.prems have fin: "maxAttempts x \<le> real ?k" by simp
    have "step (SendRejects e) w = loop ((emit (EvFailed ?x e) w)\<lparr>mq := (mq w)\<lparr>queue := rest\<rparr>\<rparr>)"
      using Cons.prems fin by (simp add: step_def send_failed_def)
    moreover have "(emit (EvFailed ?x e) w)\<lparr>mq := (mq w)\<lparr>queue := rest\<rparr>\<rparr>
            = w\<lparr>mq := (mq w)\<lparr>queue := rest\<rparr>, now := now w,
                 trace := trace w @ [(now w, EvFailed ?x e)]\<rparr>"
      by (simp add: emit_def)
    ultimately show ?thesis using Nil m by simp
  next
    case (Cons e' es')
    from Cons Cons.prems have lt: "?k < n" by simp
    with Cons.prems have more: "\<not> maxAttempts x \<le> real ?k" by simp
    let ?w3 = "w\<lparr>mq := (mq w)\<lparr>queue := ?x # rest\<rparr>, now := now w + timer w (?d * real ?k),
                  trace := trace w @ [(now w, EvDelay (?d * real ?k)),
                     (now w + timer w (?d * real ?k),
                      EvSend (item_to x @ ''@c.us'') (item_content x))]\<rparr>"
    have s1: "step (SendRejects e) w = delay (?d * real ?k) (w\<lparr>mq := (mq w)\<lparr>queue := ?x # rest\<rparr>\<rparr>)"
      using Cons.prems more by (simp add: step_def send_failed_def)
    have s2: "run [SendRejects e, Tick (timer w (?d * real ?k)), TimerFires] w = ?w3"
      using Cons.prems
      by (simp add: s1)
         (simp add: step_def delay_def emit_def loop_send [where h = h and rest = rest and x = ?x])
    have ih: "run (rejections (timer ?w3) (rateLimitDelay (mq ?w3)) (Suc (attempts ?x)) es) ?w3
        = loop (?w3\<lparr>mq := (mq ?w3)\<lparr>queue := rest\<rparr>,
               now := now ?w3 + (\<Sum>k = Suc (attempts ?x)..<n. timer ?w3 (rateLimitDelay (mq ?w3) * real k)),
               trace := trace ?w3 @ retries ?x (timer ?w3) (rateLimitDelay (mq ?w3)) (now ?w3)
                                       (Suc (attempts ?x)) es\<rparr>)"
      using Cons.prems Cons by (intro Cons.IH) simp_all
    have sum: "(\<Sum>k = ?k..<n. timer w (?d * real k))
                 = timer w (?d * real ?k) + (\<Sum>k = Suc ?k..<n. timer w (?d * real k))"
      using lt by (simp add: sum.atLeast_Suc_lessThan)
    have "run (rejections (timer w) ?d ?k (e # es)) w
            = run (rejections (timer w) ?d (Suc ?k) es) ?w3"
      using Cons s2 by simp
    also have "\<dots> = loop (?w3\<lparr>mq := (mq ?w3)\<lparr>queue := rest\<rparr>,
               now := now ?w3 + (\<Sum>k = Suc (attempts ?x)..<n. timer ?w3 (rateLimitDelay (mq ?w3) * real k)),
               trace := trace ?w3 @ retries ?x (timer ?w3) (rateLimitDelay (mq ?w3)) (now ?w3)
                                       (Suc (attempts ?x)) es\<rparr>)"
      using ih by simp
    finally show ?thesis using Cons by (simp add: retries_attempts sum add.assoc)
  qed
qed

section \<open>The worker during a pause\<close>

lemma step_now: "now (step a w) = (case a of Tick d \<Rightarrow> now w + d | _ \<Rightarrow> now w)"
proof (cases a)
  case (Initialize thrown)
  then show ?thesis by (simp add: step_def split: sum.splits)
next
  case (Logout rejected)
  then show ?thesis by (simp add: step_def split: sum.splits)
next
  case (Enqueue m rnd)
  show ?thesis
  proof (cases "enqueue m rnd w")
    case (Inl e)
    with Enqueue show ?thesis by (simp add: step_def)
  next
    case (Inr r)
    obtain i w' where r: "r = (i, w')" by (cases r)
    from enqueue_frame [of m rnd w i w'] Inr r Enqueue show ?thesis
      by (simp add: step_def same_frame_def)
  qed
next
  case Process
  then show ?thesis using process_frame [of w] by (simp add: step_def same_frame_def)
next
  case SendResolves
  then show ?thesis by (simp add: step_def send_ok_def split: worker.splits list.splits)
next
  case (SendRejects err)
  show ?thesis
  proof (cases "pc w = Sending \<and> queue (mq w) \<noteq> []")
    case True
    then obtain x rest where q: "queue (mq w) = x # rest" by (cases "queue (mq w)") auto
    obtain w' b where sf: "send_failed err x rest w = (w', b)"
      by (cases "send_failed err x rest w")
    from send_failed_frame [OF sf] loop_frame [of w'] True q sf SendRejects show ?thesis
      by (cases b) (simp_all add: step_def same_frame_def)
  next
    case False
    then show ?thesis using SendRejects
      by (simp add: step_def split: worker.splits list.splits)
  qed
next
  case TimerFires
  then show ?thesis using loop_frame [of w]
    by (simp add: step_def same_frame_def split: worker.splits)
qed (simp_all add: step_def)

lemma run_now: "now w \<le> now (run as w)"
proof (induction as arbitrary: w)
  case Nil
  show ?case by simp
next
  case (Cons a as)
  have "now w \<le> now (step a w)" by (simp add: step_now split: action.splits)
  also have "\<dots> \<le> now (run as (step a w))" by (rule Cons.IH)
  finally show ?case by simp
qed

text \<open>
  While the worker waits for a timer and the runtime may not fire it yet, no turn of the
  event loop makes it send, call back or wake up.
\<close>

lemma asleep_step:
  "pc v = Sleeping u \<Longrightarrow> isProcessing (mq v) \<Longrightarrow> now v < u \<Longrightarrow>
   trace (step a v) = trace v \<and> pc (step a v) = Sleeping u \<and> isProcessing (mq (step a v))"
  by (cases a) (simp_all add: step_def enqueue_def process_def Let_def split: sum.splits)

lemma asleep_run:
  "pc v = Sleeping u \<Longrightarrow> isProcessing (mq v) \<Longrightarrow> now (run as v) < u \<Longrightarrow>
   trace (run as v) = trace v \<and> pc (run as v) = Sleeping u"
proof (induction as arbitrary: v)
  case Nil
  then show ?case by simp
next
  case (Cons a as)
  have "now v \<le> now (step a v)" by (simp add: step_now split: action.splits)
  also have "\<dots> \<le> now (run as (step a v))" by (rule run_now)
  finally have "now v < u" using Cons.prems by simp
  from asleep_step [OF Cons.prems(1,2) this, of a] Cons.IH [of "step a v"] Cons.prems(3)
  show ?case by simp
qed

text \<open>
  Claim C2, as the specification states it, fails. \<^verbatim>\<open>enqueue\<close> keeps any number but \<open>0\<close>
  as \<^verbatim>\<open>maxAttempts\<close>, and the loop gives up when \<^verbatim>\<open>attempts >= maxAttempts\<close>: an item
  enqueued with \<^verbatim>\<open>maxAttempts: -1\<close> is sent once before the failure callback, and one
  with \<^verbatim>\<open>maxAttempts: 2.5\<close> three times. And the pause is the runtime's: on Node, with
  a delay of 3000000000 configured, each pause asks for more than the timer can hold and
  the retries of an item follow each other at one millisecond.
\<close>

theorem failing_item_counterexample:
  "maxAttempts (new_item (msg1\<lparr>msg_maxAttempts := Some (- 1)\<rparr>) ''0.5'' 0) = - 1
   \<and> trace (run [Enqueue (msg1\<lparr>msg_maxAttempts := Some (- 1)\<rparr>) ''0.5'', SendRejects ''e1''] idle_ready)
       = [(0, EvSend ''5511@c.us'' ''m1''),
          (0, EvFailed ((new_item (msg1\<lparr>msg_maxAttempts := Some (- 1)\<rparr>) ''0.5'' 0)\<lparr>attempts := 1\<rparr>) ''e1'')]
   \<and> maxAttempts (new_item (msg1\<lparr>msg_maxAttempts := Some (5 / 2)\<rparr>) ''0.5'' 0) = 5 / 2
   \<and> trace (run [Enqueue (msg1\<lparr>msg_maxAttempts := Some (5 / 2)\<rparr>) ''0.5'',
                  SendRejects ''e1'', Tick 8000, TimerFires,
                  SendRejects ''e2'', Tick 16000, TimerFires, SendRejects ''e3''] idle_ready)
       = [(0, EvSend ''5511@c.us'' ''m1''), (0, EvDelay 8000),
          (8000, EvSend ''5511@c.us'' ''m1''), (8000, EvDelay 16000),
          (24000, EvSend ''5511@c.us'' ''m1''),
          (24000, EvFailed ((new_item (msg1\<lparr>msg_maxAttempts := Some (5 / 2)\<rparr>) ''0.5'' 0)\<lparr>attempts := 3\<rparr>) ''e3'')]
   \<and> rateLimitDelay (mq idle_node) = 3000000000
   \<and> trace (run [Enqueue msg1 ''0.5'', SendRejects ''e1'', Tick 1, TimerFires,
                  SendRejects ''e2'', Tick 1, TimerFires, SendRejects ''e3''] idle_node)
       = [(0, EvSend ''5511@c.us'' ''m1''), (0, EvDelay 3000000000),
          (1, EvSend ''5511@c.us'' ''m1''), (1, EvDelay 6000000000),
          (2, EvSend ''5511@c.us'' ''m1''),
          (2, EvFailed ((new_item msg1 ''0.5'' 0)\<lparr>attempts := 3\<rparr>) ''e3'')]"
  by (simp add: idle_ready_def idle_node_def run_eval msg1_def new_item_def)

text \<open>
  Claim C2, amended: whenever the worker comes to the head of its loop with a client and
  with a fresh item \<open>x\<close> at the head of the queue whose \<^verbatim>\<open>maxAttempts\<close> is a positive whole
  number \<open>n\<close>, and every send of \<open>x\<close> rejects, the send is attempted exactly \<open>n\<close> times;
  after the \<open>k\<close>-th failure that is not the last the worker asks the runtime for a pause of
  \<^verbatim>\<open>rateLimitDelay * k\<close> and, when the timer fires, sends the same item again; after the
  last the failure callback is called, once, with the item, the item is gone from the
  queue, and only then the next item is sent. After any failure that is not the last of
  its item the worker waits for the timer of that pause with the item still at the head,
  and until the runtime may fire that timer no turn of the event loop, in any order, makes
  it send or call back.
\<close>

theorem failing_item:
  "queue (mq w) = x # rest \<Longrightarrow> client (session w) \<noteq> None \<Longrightarrow> attempts x = 0 \<Longrightarrow>
   maxAttempts x = real n \<Longrightarrow> 0 < n \<Longrightarrow> length errs = n \<Longrightarrow>
   d = rateLimitDelay (mq w) \<Longrightarrow> tm = timer w \<Longrightarrow>
     queue (mq (run (rejections tm d 1 errs) (loop w))) = rest
   \<and> trace (run (rejections tm d 1 errs) (loop w))
       = trace w @ attempts_trace x tm d (now w) errs
           @ (case rest of [] \<Rightarrow> []
              | y # ys \<Rightarrow> [(now w + (\<Sum>k = 1..<n. tm (d * real k)),
                            EvSend (item_to y @ ''@c.us'') (item_content y))])
   \<and> length (filter is_send (map snd (attempts_trace x tm d (now w) errs))) = n
   \<and> filter is_failed (map snd (attempts_trace x tm d (now w) errs))
       = [EvFailed (x\<lparr>attempts := n\<rparr>) (last errs)]
   \<and> delays_of (map snd (attempts_trace x tm d (now w) errs)) = map (\<lambda>k. d * real k) [1..<n]
   \<and> (pc v = Sending \<and> isProcessing (mq v) \<and> queue (mq v) = y # ys
        \<and> real (Suc (attempts y)) < maxAttempts y \<longrightarrow>
        pc (step (SendRejects e) v)
          = Sleeping (now v + timer v (rateLimitDelay (mq v) * real (Suc (attempts y))))
        \<and> queue (mq (step (SendRejects e) v)) = y\<lparr>attempts := Suc (attempts y)\<rparr> # ys
        \<and> (now (run as (step (SendRejects e) v))
              < now v + timer v (rateLimitDelay (mq v) * real (Suc (attempts y))) \<longrightarrow>
           trace (run as (step (SendRejects e) v)) = trace (step (SendRejects e) v)
           \<and> pc (run as (step (SendRejects e) v)) = pc (step (SendRejects e) v)))"
proof -
  assume q: "queue (mq w) = x # rest" and c: "client (session w) \<noteq> None"
    and a: "attempts x = 0" and mx: "maxAttempts x = real n" and m: "0 < n"
    and l: "length errs = n" and d: "d = rateLimitDelay (mq w)" and tm: "tm = timer w"
  from c obtain h where h: "client (session w) = Some h" by auto
  from m l have ne: "errs \<noteq> []" by auto
  let ?w1 = "emit (EvSend (item_to x @ ''@c.us'') (item_content x)) (w\<lparr>pc := Sending\<rparr>)"
  let ?end = "?w1\<lparr>mq := (mq ?w1)\<lparr>queue := rest\<rparr>,
               now := now ?w1 + (\<Sum>k = Suc (attempts x)..<n. timer ?w1 (rateLimitDelay (mq ?w1) * real k)),
               trace := trace ?w1 @ retries x (timer ?w1) (rateLimitDelay (mq ?w1)) (now ?w1)
                                       (Suc (attempts x)) errs\<rparr>"
  have l1: "loop w = ?w1" using q h by (rule loop_send)
  have "run (rejections (timer ?w1) (rateLimitDelay (mq ?w1)) (Suc (attempts x)) errs) ?w1 = loop ?end"
    using q h ne a l mx by (intro rejections_run [where rest = rest and h = h]) simp_all
  then have r: "run (rejections tm d 1 errs) (loop w) = loop ?end" using l1 a d tm by simp
  have "client (session ?end) = Some h" using h by simp
  from loop_live [OF this] r a d tm
  have "queue (mq (run (rejections tm d 1 errs) (loop w))) = rest
     \<and> trace (run (rejections tm d 1 errs) (loop w))
       = trace w @ attempts_trace x tm d (now w) errs
           @ (case rest of [] \<Rightarrow> []
              | y # ys \<Rightarrow> [(now w + (\<Sum>k = 1..<n. tm (d * real k)),
                            EvSend (item_to y @ ''@c.us'') (item_content y))])"
    by (simp add: attempts_trace_def split: list.splits)
  moreover have "length (filter is_send (map snd (attempts_trace x tm d (now w) errs))) = n"
    using m l retries_sends [of x tm d "now w" 1 errs] by (simp add: attempts_trace_def)
  moreover have "filter is_failed (map snd (attempts_trace x tm d (now w) errs))
       = [EvFailed (x\<lparr>attempts := n\<rparr>) (last errs)]"
    using m l retries_failed [OF ne, of x tm d "now w" 1] by (simp add: attempts_trace_def)
  moreover have "delays_of (map snd (attempts_trace x tm d (now w) errs))
                   = map (\<lambda>k. d * real k) [1..<n]"
    using m l retries_delays [of x tm d "now w" 1 errs] by (simp add: attempts_trace_def)
  moreover have "pc v = Sending \<and> isProcessing (mq v) \<and> queue (mq v) = y # ys
        \<and> real (Suc (attempts y)) < maxAttempts y \<longrightarrow>
        pc (step (SendRejects e) v)
          = Sleeping (now v + timer v (rateLimitDelay (mq v) * real (Suc (attempts y))))
        \<and> queue (mq (step (SendRejects e) v)) = y\<lparr>attempts := Suc (attempts y)\<rparr> # ys
        \<and> (now (run as (step (SendRejects e) v))
              < now v + timer v (rateLimitDelay (mq v) * real (Suc (attempts y))) \<longrightarrow>
           trace (run as (step (SendRejects e) v)) = trace (step (SendRejects e) v)
           \<and> pc (run as (step (SendRejects e) v)) = pc (step (SendRejects e) v))"
  proof (intro impI, elim conjE)
    let ?u = "now v + timer v (rateLimitDelay (mq v) * real (Suc (attempts y)))"
    let ?v = "step (SendRejects e) v"
    assume v: "pc v = Sending" "isProcessing (mq v)" "queue (mq v) = y # ys"
      and lt: "real (Suc (attempts y)) < maxAttempts y"
    from lt have more: "\<not> maxAttempts y \<le> real (Suc (attempts y))" by simp
    have s: "?v = delay (rateLimitDelay (mq v) * real (Suc (attempts y)))
                    (v\<lparr>mq := (mq v)\<lparr>queue := y\<lparr>attempts := Suc (attempts y)\<rparr> # ys\<rparr>\<rparr>)"
      using v more by (simp add: step_def send_failed_def)
    have p: "pc ?v = Sleeping ?u" and i: "isProcessing (mq ?v)"
      and qv: "queue (mq ?v) = y\<lparr>attempts := Suc (attempts y)\<rparr> # ys"
      using v by (simp_all add: s)
    have "now (run as ?v) < ?u \<longrightarrow> trace (run as ?v) = trace ?v \<and> pc (run as ?v) = pc ?v"
      using asleep_run [OF p i, of as] p by simp
    with p qv show "pc ?v = Sleeping ?u \<and> queue (mq ?v) = y\<lparr>attempts := Suc (attempts y)\<rparr> # ys
        \<and> (now (run as ?v) < ?u \<longrightarrow> trace (run as ?v) = trace ?v \<and> pc (run as ?v) = pc ?v)"
      by blast
  qed
  ultimately show ?thesis by blast
qed

theorem failing_item_witness:
  "queue (mq (draining (new_item msg1 ''0.5'' 0))) = [new_item msg1 ''0.5'' 0]
   \<and> client (session (draining (new_item msg1 ''0.5'' 0))) \<noteq> None
   \<and> attempts (new_item msg1 ''0.5'' 0) = 0 \<and> maxAttempts (new_item msg1 ''0.5'' 0) = real 3
   \<and> rateLimitDelay (mq (draining (new_item msg1 ''0.5'' 0))) = 8000
   \<and> timer (draining (new_item msg1 ''0.5'' 0)) = punctual
   \<and> queue (mq (run (rejections punctual 8000 1 [''e1'', ''e2'', ''e3''])
                  (loop (draining (new_item msg1 ''0.5'' 0))))) = []
   \<and> trace (run (rejections punctual 8000 1 [''e1'', ''e2'', ''e3''])
               (loop (draining (new_item msg1 ''0.5'' 0))))
       = [(0, EvSend ''5511@c.us'' ''m1''), (0, EvDelay 8000),
          (8000, EvSend ''5511@c.us'' ''m1''), (8000, EvDelay 16000),
          (24000, EvSend ''5511@c.us'' ''m1''),
          (24000, EvFailed ((new_item msg1 ''0.5'' 0)\<lparr>attempts := 3\<rparr>) ''e3'')]
   \<and> pc (loop (draining (new_item msg1 ''0.5'' 0))) = Sending
   \<and> pc (step (SendRejects ''e1'') (loop (draining (new_item msg1 ''0.5'' 0)))) = Sleeping 8000
   \<and> now (run [Tick 7999, TimerFires]
            (step (SendRejects ''e1'') (loop (draining (new_item msg1 ''0.5'' 0))))) < 8000
   \<and> trace (run [Tick 7999, TimerFires]
              (step (SendRejects ''e1'') (loop (draining (new_item msg1 ''0.5'' 0)))))
       = [(0, EvSend ''5511@c.us'' ''m1''), (0, EvDelay 8000)]"
proof -
  let ?x = "new_item msg1 ''0.5'' 0"
  let ?v = "loop (draining ?x)"
  have x: "attempts ?x = 0" "maxAttempts ?x = real 3"
    "item_to ?x = ''5511''" "item_content ?x = ''m1''"
    by (simp_all add: new_item_def msg1_def or_default_def)
  have w: "queue (mq (draining ?x)) = [?x]" "client (session (draining ?x)) \<noteq> None"
    "rateLimitDelay (mq (draining ?x)) = 8000" "now (draining ?x) = 0" "trace (draining ?x) = []"
    "timer (draining ?x) = punctual" "isProcessing (mq (draining ?x))"
    by (simp_all add: draining_def idle_ready_def run_eval)
  from w obtain h where h: "client (session (draining ?x)) = Some h" by auto
  have v: "?v = emit (EvSend (item_to ?x @ ''@c.us'') (item_content ?x)) ((draining ?x)\<lparr>pc := Sending\<rparr>)"
    using w(1) h by (rule loop_send)
  have v': "pc ?v = Sending" "isProcessing (mq ?v)" "queue (mq ?v) = [?x]" "now ?v = 0"
    "rateLimitDelay (mq ?v) = 8000" "timer ?v = punctual"
    "trace ?v = [(0, EvSend ''5511@c.us'' ''m1'')]"
    using w x by (simp_all add: v)
  have t: "punctual 8000 = 8000" "punctual 16000 = 16000" by (simp_all add: punctual_def)
  have n: "now (run [Tick 7999, TimerFires] (step (SendRejects ''e1'') ?v)) = 7999"
    by (simp add: step_now v')
  have s: "trace (step (SendRejects ''e1'') ?v) = [(0, EvSend ''5511@c.us'' ''m1''), (0, EvDelay 8000)]"
    using v' x by (simp add: step_def send_failed_def)
  from failing_item [of "draining ?x" ?x "[]" 3 "[''e1'', ''e2'', ''e3'']" 8000 punctual
                        ?v ?x "[]" "''e1''" "[Tick 7999, TimerFires]"] w x v' t n s
  show ?thesis by (simp add: attempts_trace_def)
qed

section \<open>Outbound queue: the pace of completed sends\<close>

lemma sent_times_append: "sent_times (tr @ tr') = sent_times tr @ sent_times tr'"
  by (induction tr rule: sent_times.induct) simp_all

lemma spaced_snoc:
  "spaced d ts \<Longrightarrow> \<forall>s \<in> set ts. real s + d \<le> real t \<Longrightarrow> spaced d (ts @ [t])"
  by (induction d ts rule: spaced.induct) simp_all

lemma spaced_snoc_nat:
  "spaced (real g) ts \<Longrightarrow> \<forall>s \<in> set ts. s + g \<le> t \<Longrightarrow> spaced (real g) (ts @ [t])"
proof (erule spaced_snoc)
  assume a: "\<forall>s \<in> set ts. s + g \<le> t"
  show "\<forall>s \<in> set ts. real s + real g \<le> real t"
  proof
    fix s assume "s \<in> set ts"
    with a have "s + g \<le> t" by simp
    then have "real (s + g) \<le> real t" by (simp only: of_nat_le_iff)
    then show "real s + real g \<le> real t" by simp
  qed
qed

lemma spaced_mono: "d \<le> d' \<Longrightarrow> spaced d' ts \<Longrightarrow> spaced d ts"
  by (induction d ts rule: spaced.induct) simp_all

lemma later: "\<forall>s \<in> S. s + d \<le> a \<Longrightarrow> a \<le> b \<Longrightarrow> \<forall>s \<in> S. s + (d::nat) \<le> b"
  by (meson order_trans)

lemma on_time_send_failed:
  "on_time w \<Longrightarrow> send_failed err x rest w = (w', b) \<Longrightarrow>
   (b \<longrightarrow> on_time w') \<and> (\<not> b \<longrightarrow> paced w')"
proof -
  assume o: "on_time w" and sf: "send_failed err x rest w = (w', b)"
  let ?g = "timer w (rateLimitDelay (mq w))"
  let ?x = "x\<lparr>attempts := attempts x + 1\<rparr>"
  from o have sp: "spaced (real ?g) (sent_times (trace w))"
    and le: "\<forall>s \<in> set (sent_times (trace w)). s + ?g \<le> now w"
    and ip: "isProcessing (mq w)"
    by (simp_all add: on_time_def gap_def)
  show ?thesis
  proof (cases "maxAttempts ?x \<le> real (attempts ?x)")
    case True
    with sf have "w' = (emit (EvFailed ?x err) w)\<lparr>mq := (mq w)\<lparr>queue := rest\<rparr>\<rparr>" and "b"
      by (simp_all add: send_failed_def)
    then show ?thesis using sp le ip by (simp add: on_time_def gap_def sent_times_append)
  next
    case False
    with sf have w': "w' = delay (rateLimitDelay (mq w) * real (attempts ?x))
                             (w\<lparr>mq := (mq w)\<lparr>queue := ?x # rest\<rparr>\<rparr>)"
      and b: "\<not> b"
      by (simp_all add: send_failed_def)
    have "\<forall>s \<in> set (sent_times (trace w)). s + ?g
            \<le> now w + timer w (rateLimitDelay (mq w) * real (attempts ?x))"
      using le by (rule later) simp
    then show ?thesis using sp ip b unfolding w'
      by (simp add: paced_def gap_def sent_times_append)
  qed
qed

lemma paced_loop: "on_time w \<Longrightarrow> paced (loop w)"
proof (erule loop_rule [rotated -1])
  fix w assume "on_time w"
  then show "paced (w\<lparr>mq := (mq w)\<lparr>isProcessing := False\<rparr>, pc := Idle\<rparr>)"
    by (simp add: on_time_def paced_def gap_def)
next
  fix w x rest assume "on_time w"
  then show "paced (emit (EvSend (item_to x @ ''@c.us'') (item_content x)) (w\<lparr>pc := Sending\<rparr>))"
    by (simp add: on_time_def paced_def gap_def sent_times_append)
next
  fix w x rest err w'
  assume "on_time w" "send_failed err x rest w = (w', False)"
  then show "paced w'" using on_time_send_failed by blast
next
  fix w x rest err w'
  assume "on_time w" "send_failed err x rest w = (w', True)"
  then show "on_time w'" using on_time_send_failed by blast
qed

lemma paced_process: "paced w \<Longrightarrow> paced (process w)"
proof (cases "isProcessing (mq w) \<or> queue (mq w) = [] \<or> \<not> (mq_client (mq w) \<and> isReady (session w))")
  case True
  assume "paced w"
  with True show ?thesis by (simp add: process_def)
next
  case False
  assume p: "paced w"
  with False have "on_time (w\<lparr>mq := (mq w)\<lparr>isProcessing := True\<rparr>\<rparr>)"
    by (auto simp: paced_def on_time_def gap_def)
  then show ?thesis using False by (simp add: process_def paced_loop)
qed

lemma paced_enqueue: "paced w \<Longrightarrow> enqueue m rnd w = Inr (i, w') \<Longrightarrow> paced w'"
proof -
  assume p: "paced w" and e: "enqueue m rnd w = Inr (i, w')"
  let ?w1 = "w\<lparr>mq := (mq w)\<lparr>queue := queue (mq w) @ [new_item m rnd (now w)]\<rparr>\<rparr>"
  have "paced ?w1" using p by (simp add: paced_def gap_def split: worker.splits)
  then show ?thesis using e paced_process [of ?w1]
    by (auto simp: enqueue_def Let_def split: if_splits)
qed

lemma paced_send_ok:
  "paced w \<Longrightarrow> pc w = Sending \<Longrightarrow> paced (send_ok x rest w)"
proof -
  assume p: "paced w" and s: "pc w = Sending"
  let ?g = "timer w (rateLimitDelay (mq w))"
  from p s have sp: "spaced (real ?g) (sent_times (trace w))"
    and le: "\<forall>s \<in> set (sent_times (trace w)). s + ?g \<le> now w"
    and ip: "isProcessing (mq w)"
    by (simp_all add: paced_def gap_def)
  have "spaced (real ?g) (sent_times (trace w) @ [now w])" using sp le by (rule spaced_snoc_nat)
  moreover have "\<forall>s \<in> set (sent_times (trace w)). s + ?g \<le> now w + ?g"
    using le by (rule later) simp
  ultimately show ?thesis using ip
    by (simp add: paced_def gap_def send_ok_def sent_times_append)
qed

lemma paced_step: "paced w \<Longrightarrow> paced (step a w)"
proof (cases a)
  case (Initialize thrown)
  assume "paced w"
  then show ?thesis using Initialize
    by (simp add: step_def paced_def gap_def split: sum.splits worker.splits)
next
  case (Logout rejected)
  assume "paced w"
  then show ?thesis using Logout
    by (simp add: step_def paced_def gap_def split: sum.splits worker.splits)
next
  case (Enqueue m rnd)
  assume "paced w"
  then show ?thesis using Enqueue by (auto simp: step_def split: sum.splits dest: paced_enqueue)
next
  case Process
  assume "paced w"
  then show ?thesis using Process by (simp add: step_def paced_process)
next
  case SendResolves
  assume "paced w"
  then show ?thesis using SendResolves
    by (auto simp: step_def split: worker.splits list.splits intro: paced_send_ok)
next
  case (SendRejects err)
  assume p: "paced w"
  show ?thesis
  proof (cases "pc w = Sending \<and> queue (mq w) \<noteq> []")
    case True
    then obtain x rest where q: "queue (mq w) = x # rest" by (cases "queue (mq w)") auto
    from p True have ot: "on_time w" by (simp add: paced_def on_time_def)
    obtain w' b where sf: "send_failed err x rest w = (w', b)"
      by (cases "send_failed err x rest w")
    from on_time_send_failed [OF ot sf] paced_loop [of w'] True q sf SendRejects show ?thesis
      by (cases b) (simp_all add: step_def)
  next
    case False
    then show ?thesis using p SendRejects
      by (simp add: step_def split: worker.splits list.splits)
  qed
next
  case (Tick n)
  assume p: "paced w"
  let ?g = "timer w (rateLimitDelay (mq w))"
  show ?thesis
  proof (cases "pc w")
    case (Sleeping u)
    with p Tick show ?thesis by (simp add: step_def paced_def gap_def)
  next
    case Idle
    with p have "\<forall>s \<in> set (sent_times (trace w)). s + ?g \<le> now w"
      by (simp add: paced_def gap_def)
    then have "\<forall>s \<in> set (sent_times (trace w)). s + ?g \<le> now w + n" by (rule later) simp
    with p Idle Tick show ?thesis by (simp add: step_def paced_def gap_def)
  next
    case Sending
    with p have "\<forall>s \<in> set (sent_times (trace w)). s + ?g \<le> now w"
      by (simp add: paced_def gap_def)
    then have "\<forall>s \<in> set (sent_times (trace w)). s + ?g \<le> now w + n" by (rule later) simp
    with p Sending Tick show ?thesis by (simp add: step_def paced_def gap_def)
  qed
next
  case TimerFires
  assume p: "paced w"
  show ?thesis
  proof (cases "pc w")
    case (Sleeping u)
    show ?thesis
    proof (cases "u \<le> now w")
      case True
      from p Sleeping have "\<forall>s \<in> set (sent_times (trace w)). s + gap w \<le> u"
        by (simp add: paced_def)
      then have "\<forall>s \<in> set (sent_times (trace w)). s + gap w \<le> now w"
        using True by (rule later)
      with p Sleeping have "on_time w" by (simp add: paced_def on_time_def)
      then show ?thesis using TimerFires Sleeping True by (simp add: step_def paced_loop)
    next
      case False
      then show ?thesis using p TimerFires Sleeping by (simp add: step_def)
    qed
  qed (use p TimerFires in \<open>simp_all add: step_def\<close>)
qed (simp_all add: step_def paced_def gap_def split: worker.splits)

lemma paced_run: "paced w \<Longrightarrow> paced (run as w)"
  by (induction as arbitrary: w) (simp_all add: paced_step)

lemma paced_init: "paced (init_world sn cfg tm t0)"
  by (simp add: paced_def gap_def init_world_def new_MessageQueue_def)

lemma spacing_always:
  "spaced (real (tm (or_default cfg 8000))) (sent_times (trace (run as (init_world sn cfg tm t0))))"
  using paced_run [OF paced_init, of as sn cfg tm t0] run_frame [of as "init_world sn cfg tm t0"]
  by (simp add: paced_def gap_def init_world_def new_MessageQueue_def)

section \<open>Outbound queue: order and spacing\<close>

lemma run_append: "run (as @ bs) w = run bs (run as w)"
  by (induction as arbitrary: w) simp_all

lemma dispatch_obs:
  "length ts = length xs \<Longrightarrow>
   map snd (dispatch tm d t xs ts)
     = concat (map (\<lambda>x. [EvSend (item_to x @ ''@c.us'') (item_content x), EvSent x, EvDelay d]) xs)"
  by (induction tm d t xs ts rule: dispatch.induct) simp_all

lemma dispatch_spaced_from:
  "s + tm d \<le> t \<Longrightarrow> spaced (real (tm d)) (s # sent_times (dispatch tm d t xs ts))"
  by (induction tm d t xs ts arbitrary: s rule: dispatch.induct) simp_all

lemma dispatch_spaced: "spaced (real (tm d)) (sent_times (dispatch tm d t xs ts))"
proof (cases "dispatch tm d t xs ts")
  case Nil
  then show ?thesis by simp
next
  case (Cons p tr)
  then obtain x xs' a b ts' where xs: "xs = x # xs'" and ts: "ts = (a, b) # ts'"
    by (cases xs; cases ts) auto
  have "spaced (real (tm d)) ((t + a) # sent_times (dispatch tm d (t + a + tm d + b) xs' ts'))"
    by (rule dispatch_spaced_from) simp
  then show ?thesis using xs ts by simp
qed

lemma drain_run:
  "client (session w) = Some h \<Longrightarrow> length ts = length (queue (mq w)) \<Longrightarrow>
   run (completions (timer w) (rateLimitDelay (mq w)) ts) (loop w)
     = w\<lparr>mq := (mq w)\<lparr>queue := [], isProcessing := False\<rparr>, pc := Idle,
          now := now w + sum_list (map (\<lambda>(a, b). a + timer w (rateLimitDelay (mq w)) + b) ts),
          trace := trace w @ dispatch (timer w) (rateLimitDelay (mq w)) (now w) (queue (mq w)) ts\<rparr>"
proof (induction ts arbitrary: w)
  case Nil
  then show ?case by (simp add: loop_empty)
next
  case (Cons p ts)
  obtain a b where p: "p = (a, b)" by (cases p)
  from Cons.prems obtain x xs where q: "queue (mq w) = x # xs" by (cases "queue (mq w)") auto
  let ?d = "rateLimitDelay (mq w)"
  let ?g = "timer w (rateLimitDelay (mq w))"
  let ?w4 = "w\<lparr>pc := Sleeping (now w + a + ?g), mq := (mq w)\<lparr>queue := xs\<rparr>,
                now := now w + a + ?g + b,
                trace := trace w @ [(now w, EvSend (item_to x @ ''@c.us'') (item_content x)),
                                    (now w + a, EvSent x), (now w + a, EvDelay ?d)]\<rparr>"
  have l: "loop w = emit (EvSend (item_to x @ ''@c.us'') (item_content x)) (w\<lparr>pc := Sending\<rparr>)"
    using q Cons.prems(1) by (rule loop_send)
  have s: "run [Tick a, SendResolves, Tick (?g + b)] (loop w) = ?w4"
    using q by (simp add: l step_def send_ok_def emit_def delay_def add.assoc)
  have t: "step TimerFires ?w4 = loop ?w4" by (simp add: step_def)
  have ih: "run (completions (timer ?w4) (rateLimitDelay (mq ?w4)) ts) (loop ?w4)
     = ?w4\<lparr>mq := (mq ?w4)\<lparr>queue := [], isProcessing := False\<rparr>, pc := Idle,
          now := now ?w4 + sum_list (map (\<lambda>(a, b). a + timer ?w4 (rateLimitDelay (mq ?w4)) + b) ts),
          trace := trace ?w4 @ dispatch (timer ?w4) (rateLimitDelay (mq ?w4)) (now ?w4) (queue (mq ?w4)) ts\<rparr>"
    using Cons.prems q by (intro Cons.IH) simp_all
  have "run (completions (timer w) ?d (p # ts)) (loop w)
          = run (completions (timer w) ?d ts)
              (step TimerFires (run [Tick a, SendResolves, Tick (?g + b)] (loop w)))"
    by (simp add: p)
  also have "\<dots> = run (completions (timer w) ?d ts) (loop ?w4)" by (simp only: s t)
  finally show ?case using ih q p by (simp add: add.assoc)
qed

lemma pushes_run:
  "isProcessing (mq w) \<Longrightarrow> list_all (\<lambda>(m, rnd). valid m) ms \<Longrightarrow>
   run (enqueues ms) w = w\<lparr>mq := (mq w)\<lparr>queue := queue (mq w) @ new_items ms (now w)\<rparr>\<rparr>"
proof (induction ms arbitrary: w)
  case Nil
  then show ?case by (simp add: enqueues_def new_items_def)
next
  case (Cons p ms)
  obtain m rnd where p: "p = (m, rnd)" by (cases p)
  let ?w1 = "w\<lparr>mq := (mq w)\<lparr>queue := queue (mq w) @ [new_item m rnd (now w)]\<rparr>\<rparr>"
  have s: "step (Enqueue m rnd) w = ?w1"
    using Cons.prems p by (simp add: step_def enqueue_def valid_def Let_def)
  have "run (enqueues ms) ?w1 = ?w1\<lparr>mq := (mq ?w1)\<lparr>queue := queue (mq ?w1) @ new_items ms (now ?w1)\<rparr>\<rparr>"
    using Cons.prems by (intro Cons.IH) simp_all
  then show ?case using s p by (simp add: enqueues_def new_items_def)
qed

lemma enqueues_run:
  "pc w = Idle \<Longrightarrow> \<not> isProcessing (mq w) \<Longrightarrow> queue (mq w) = [] \<Longrightarrow> mq_client (mq w) \<Longrightarrow>
   isReady (session w) \<Longrightarrow> client (session w) = Some h \<Longrightarrow>
   list_all (\<lambda>(m, rnd). valid m) ms \<Longrightarrow> ms \<noteq> [] \<Longrightarrow>
   run (enqueues ms) w = loop (w\<lparr>mq := (mq w)\<lparr>queue := new_items ms (now w), isProcessing := True\<rparr>\<rparr>)"
proof -
  assume a: "pc w = Idle" "\<not> isProcessing (mq w)" "queue (mq w) = []" "mq_client (mq w)"
    "isReady (session w)" "client (session w) = Some h" "list_all (\<lambda>(m, rnd). valid m) ms" "ms \<noteq> []"
  then obtain m rnd ms' where ms: "ms = (m, rnd) # ms'" by (cases ms) auto
  let ?x = "new_item m rnd (now w)"
  let ?w1 = "emit (EvSend (item_to ?x @ ''@c.us'') (item_content ?x))
               (w\<lparr>mq := (mq w)\<lparr>queue := [?x], isProcessing := True\<rparr>, pc := Sending\<rparr>)"
  have "process (w\<lparr>mq := (mq w)\<lparr>queue := [?x]\<rparr>\<rparr>) = ?w1"
    using a process_ready [of "w\<lparr>mq := (mq w)\<lparr>queue := [?x]\<rparr>\<rparr>" h ?x "[]"] by simp
  then have s: "step (Enqueue m rnd) w = ?w1"
    using a ms by (simp add: step_def enqueue_def valid_def Let_def)
  have "run (enqueues ms') ?w1 = ?w1\<lparr>mq := (mq ?w1)\<lparr>queue := queue (mq ?w1) @ new_items ms' (now ?w1)\<rparr>\<rparr>"
    using a ms by (intro pushes_run) simp_all
  then have r: "run (enqueues ms) w
      = emit (EvSend (item_to ?x @ ''@c.us'') (item_content ?x))
          (w\<lparr>mq := (mq w)\<lparr>queue := new_items ms (now w), isProcessing := True\<rparr>, pc := Sending\<rparr>)"
    using s ms by (simp add: enqueues_def new_items_def emit_def)
  have "loop (w\<lparr>mq := (mq w)\<lparr>queue := new_items ms (now w), isProcessing := True\<rparr>\<rparr>)
      = emit (EvSend (item_to ?x @ ''@c.us'') (item_content ?x))
          (w\<lparr>mq := (mq w)\<lparr>queue := new_items ms (now w), isProcessing := True\<rparr>, pc := Sending\<rparr>)"
    using a ms by (subst loop_send [where x = ?x and rest = "new_items ms' (now w)" and h = h])
      (simp_all add: new_items_def)
  with r show ?thesis by simp
qed

text \<open>
  Claim C4, as the specification states it, fails: the spacing is the runtime's, not the
  configured delay. On Node, with a delay of 3000000000 configured, \<^verbatim>\<open>setTimeout\<close> is
  asked for more than it can hold and fires after one millisecond: two items enqueued on a
  Ready session, whose sends succeed and take 5 ms each, complete 6 ms apart.
\<close>

theorem fifo_dispatch_counterexample:
  "isReady (session idle_node) \<and> rateLimitDelay (mq idle_node) = 3000000000
   \<and> trace (run [Enqueue msg1 ''0.1'', Enqueue msg2 ''0.2'', Tick 5, SendResolves, Tick 1,
                  TimerFires, Tick 5, SendResolves] idle_node)
       = [(0, EvSend ''5511@c.us'' ''m1''), (5, EvSent (new_item msg1 ''0.1'' 0)),
          (5, EvDelay 3000000000),
          (6, EvSend ''5522@c.us'' ''m2''), (11, EvSent (new_item msg2 ''0.2'' 0)),
          (11, EvDelay 3000000000)]
   \<and> sent_times (trace (run [Enqueue msg1 ''0.1'', Enqueue msg2 ''0.2'', Tick 5, SendResolves,
                              Tick 1, TimerFires, Tick 5, SendResolves] idle_node)) = [5, 11]
   \<and> \<not> spaced 3000000000 [5, 11]"
  by (simp add: idle_node_def run_eval msg1_def msg2_def new_item_def)

text \<open>
  Claim C4, amended: on a Ready session that has its client and an idle, empty queue, when
  items are enqueued and every send resolves, however long each send takes and however late
  each timer fires, the items are sent in the order they were enqueued, each send
  completing before the next is started, and consecutive completions are at least as far
  apart as the runtime's timer takes for \<^verbatim>\<open>rateLimitDelay\<close>; afterwards the queue is empty
  and idle again. That spacing holds in every run whatsoever, on every runtime: in every
  world the service can reach, consecutive completed sends are at least the time the
  runtime's timer takes for the configured delay (8000 when none or 0 is configured)
  apart. It is at least the configured delay itself on a runtime whose timer does not fire
  before that delay.
\<close>

theorem fifo_dispatch:
  "pc w = Idle \<Longrightarrow> \<not> isProcessing (mq w) \<Longrightarrow> queue (mq w) = [] \<Longrightarrow> mq_client (mq w) \<Longrightarrow>
   isReady (session w) \<Longrightarrow> client (session w) \<noteq> None \<Longrightarrow>
   list_all (\<lambda>(m, rnd). valid m) ms \<Longrightarrow> length ts = length ms \<Longrightarrow>
   d = rateLimitDelay (mq w) \<Longrightarrow> tm = timer w \<Longrightarrow>
     run (enqueues ms @ completions tm d ts) w
       = w\<lparr>now := now w + sum_list (map (\<lambda>(a, b). a + tm d + b) ts),
            trace := trace w @ dispatch tm d (now w) (new_items ms (now w)) ts\<rparr>
   \<and> map snd (dispatch tm d (now w) (new_items ms (now w)) ts)
       = concat (map (\<lambda>x. [EvSend (item_to x @ ''@c.us'') (item_content x), EvSent x, EvDelay d])
                   (new_items ms (now w)))
   \<and> spaced (real (tm d)) (sent_times (dispatch tm d (now w) (new_items ms (now w)) ts))
   \<and> (d \<le> real (tm d) \<longrightarrow>
        spaced d (sent_times (dispatch tm d (now w) (new_items ms (now w)) ts)))
   \<and> spaced (real (rt (or_default cfg 8000)))
        (sent_times (trace (run as (init_world sn cfg rt t0))))
   \<and> (or_default cfg 8000 \<le> real (rt (or_default cfg 8000)) \<longrightarrow>
        spaced (or_default cfg 8000) (sent_times (trace (run as (init_world sn cfg rt t0)))))"
proof -
  assume a: "pc w = Idle" "\<not> isProcessing (mq w)" "queue (mq w) = []" "mq_client (mq w)"
    "isReady (session w)" "list_all (\<lambda>(m, rnd). valid m) ms"
    and c: "client (session w) \<noteq> None" and l: "length ts = length ms"
    and d: "d = rateLimitDelay (mq w)" and tm: "tm = timer w"
  from c obtain h where h: "client (session w) = Some h" by auto
  have len: "length ts = length (new_items ms (now w))" using l by (simp add: new_items_def)
  have r: "run (enqueues ms @ completions tm d ts) w
       = w\<lparr>now := now w + sum_list (map (\<lambda>(a, b). a + tm d + b) ts),
            trace := trace w @ dispatch tm d (now w) (new_items ms (now w)) ts\<rparr>"
  proof (cases "ms = []")
    case True
    with l show ?thesis by (simp add: enqueues_def new_items_def)
  next
    case False
    let ?w = "w\<lparr>mq := (mq w)\<lparr>queue := new_items ms (now w), isProcessing := True\<rparr>\<rparr>"
    have "run (enqueues ms) w = loop ?w" using a h False by (intro enqueues_run) simp_all
    then have "run (enqueues ms @ completions tm d ts) w
                 = run (completions (timer ?w) (rateLimitDelay (mq ?w)) ts) (loop ?w)"
      using d tm by (simp add: run_append)
    also have "\<dots> = ?w\<lparr>mq := (mq ?w)\<lparr>queue := [], isProcessing := False\<rparr>, pc := Idle,
          now := now ?w + sum_list (map (\<lambda>(a, b). a + timer ?w (rateLimitDelay (mq ?w)) + b) ts),
          trace := trace ?w @ dispatch (timer ?w) (rateLimitDelay (mq ?w)) (now ?w) (queue (mq ?w)) ts\<rparr>"
      using h len by (intro drain_run [where h = h]) simp_all
    also have "\<dots> = w\<lparr>now := now w + sum_list (map (\<lambda>(a, b). a + tm d + b) ts),
            trace := trace w @ dispatch tm d (now w) (new_items ms (now w)) ts\<rparr>"
      using a d tm by (cases w, cases "mq w") simp
    finally show ?thesis .
  qed
  have s1: "spaced (real (tm d)) (sent_times (dispatch tm d (now w) (new_items ms (now w)) ts))"
    by (rule dispatch_spaced)
  have s2: "spaced (real (rt (or_default cfg 8000)))
              (sent_times (trace (run as (init_world sn cfg rt t0))))"
    by (rule spacing_always)
  from r dispatch_obs [OF len, of tm d "now w"] s1 s2
    spaced_mono [OF _ s1, of d] spaced_mono [OF _ s2, of "or_default cfg 8000"]
  show ?thesis by blast
qed

theorem fifo_dispatch_witness:
  "pc idle_ready = Idle \<and> \<not> isProcessing (mq idle_ready) \<and> queue (mq idle_ready) = []
   \<and> mq_client (mq idle_ready) \<and> isReady (session idle_ready) \<and> client (session idle_ready) \<noteq> None
   \<and> valid msg1 \<and> valid msg2 \<and> valid msg3 \<and> rateLimitDelay (mq idle_ready) = 8000
   \<and> timer idle_ready = punctual \<and> (8000::real) \<le> real (punctual 8000)
   \<and> trace (run (enqueues [(msg1, ''0.1''), (msg2, ''0.2''), (msg3, ''0.3'')]
                   @ completions punctual 8000 [(5, 0), (7, 2), (3, 1)]) idle_ready)
       = [(0, EvSend ''5511@c.us'' ''m1''), (5, EvSent (new_item msg1 ''0.1'' 0)), (5, EvDelay 8000),
          (8005, EvSend ''5522@c.us'' ''m2''), (8012, EvSent (new_item msg2 ''0.2'' 0)),
          (8012, EvDelay 8000),
          (16014, EvSend ''5533@c.us'' ''m3''), (16017, EvSent (new_item msg3 ''0.3'' 0)),
          (16017, EvDelay 8000)]
   \<and> spaced 8000 [5, 8012, 16017]
   \<and> spaced 8000 (sent_times (trace (run [Initialize None, Platform Ready, SetClient,
        Enqueue msg1 ''0.1'', SendResolves] (init_world None None punctual 0))))"
proof -
  have w: "pc idle_ready = Idle" "\<not> isProcessing (mq idle_ready)" "queue (mq idle_ready) = []"
    "mq_client (mq idle_ready)" "isReady (session idle_ready)" "client (session idle_ready) \<noteq> None"
    "rateLimitDelay (mq idle_ready) = 8000" "now idle_ready = 0" "trace idle_ready = []"
    "timer idle_ready = punctual"
    by (simp_all add: idle_ready_def run_eval)
  have v: "valid msg1" "valid msg2" "valid msg3"
    by (simp_all add: valid_def truthy_def msg1_def msg2_def msg3_def)
  have i: "item_to (new_item msg1 ''0.1'' 0) = ''5511''" "item_content (new_item msg1 ''0.1'' 0) = ''m1''"
    "item_to (new_item msg2 ''0.2'' 0) = ''5522''" "item_content (new_item msg2 ''0.2'' 0) = ''m2''"
    "item_to (new_item msg3 ''0.3'' 0) = ''5533''" "item_content (new_item msg3 ''0.3'' 0) = ''m3''"
    by (simp_all add: new_item_def msg1_def msg2_def msg3_def)
  have t: "punctual 8000 = 8000" "or_default None 8000 = 8000"
    by (simp_all add: punctual_def or_default_def)
  from fifo_dispatch [of idle_ready "[(msg1, ''0.1''), (msg2, ''0.2''), (msg3, ''0.3'')]"
                         "[(5, 0), (7, 2), (3, 1)]" 8000 punctual punctual None
                         "[Initialize None, Platform Ready, SetClient, Enqueue msg1 ''0.1'',
                           SendResolves]" None 0] w v i t
  show ?thesis by (simp add: new_items_def)
qed

end
